theory Spec2Isabelle
  imports Complex_Main "HOL-Library.AList" "HOL-Library.Sublist" "HOL-Library.Multiset"
begin

section \<open>JavaScript values used by the search engine\<close>

subsection \<open>Strings\<close>

text \<open>
  Strings are \<open>char list\<close>; a \<open>char\<close> is one code unit of Latin-1 text, U+0000 to U+00FF.
  Text with a code unit above U+00FF is outside the model.

  \<open>String.prototype.toLowerCase\<close> on such text: the capital letters U+0041 to U+005A,
  U+00C0 to U+00D6 and U+00D8 to U+00DE go to the small letter 32 places up; every other
  code unit stays.
\<close>

definition toLowerCase_char :: "char \<Rightarrow> char" where
  "toLowerCase_char c =
     (let n = (of_char c :: nat)
      in if (65 \<le> n \<and> n \<le> 90) \<or> (192 \<le> n \<and> n \<le> 214) \<or> (216 \<le> n \<and> n \<le> 222)
         then char_of (n + 32) else c)"

definition toLowerCase :: "string \<Rightarrow> string" where
  "toLowerCase s = map toLowerCase_char s"

text \<open>
  \<open>String.prototype.toUpperCase\<close> on such text: the small letters U+0061 to U+007A,
  U+00E0 to U+00F6 and U+00F8 to U+00FE go to the capital letter 32 places down, and the
  sharp s U+00DF becomes the two letters SS. The upper-case forms of the micro sign U+00B5
  and of y with diaeresis U+00FF are U+039C and U+0178, outside Latin-1: each is written
  here with the code unit of its own small letter, which no other upper-case form uses, so
  that two upper-cased texts are equal here exactly when they are equal in the program.
\<close>

definition toUpperCase_char :: "char \<Rightarrow> string" where
  "toUpperCase_char c =
     (let n = (of_char c :: nat)
      in if (97 \<le> n \<and> n \<le> 122) \<or> (224 \<le> n \<and> n \<le> 246) \<or> (248 \<le> n \<and> n \<le> 254)
         then [char_of (n - 32)]
         else if n = 223 then ''SS'' else [c])"

definition toUpperCase :: "string \<Rightarrow> string" where
  "toUpperCase s = concat (map toUpperCase_char s)"

text \<open>The class \<open>\s\<close> of a regular expression: tab, line feed, vertical tab, form feed,
  carriage return, space and the no-break space.\<close>

definition is_space :: "char \<Rightarrow> bool" where
  "is_space c = ((of_char c :: nat) \<in> {9, 10, 11, 12, 13, 32, 160})"

text \<open>The class \<open>[a-z0-9]\<close>.\<close>

definition is_alnum :: "char \<Rightarrow> bool" where
  "is_alnum c =
     (let n = (of_char c :: nat) in (97 \<le> n \<and> n \<le> 122) \<or> (48 \<le> n \<and> n \<le> 57))"

text \<open>\<open>s.includes(t)\<close>: \<open>t\<close> occurs in \<open>s\<close> as a contiguous block.\<close>

fun str_includes :: "string \<Rightarrow> string \<Rightarrow> bool" where
  "str_includes [] t = (t = [])"
| "str_includes (c # cs) t = (prefix t (c # cs) \<or> str_includes cs t)"

text \<open>\<open>parts.join(' ')\<close>.\<close>

fun join_space :: "string list \<Rightarrow> string" where
  "join_space [] = []"
| "join_space [p] = p"
| "join_space (p # q # ps) = p @ '' '' @ join_space (q # ps)"

text \<open>Truthiness of an optional string: \<open>undefined\<close> and the empty string are falsy.\<close>

definition truthy :: "string option \<Rightarrow> bool" where
  "truthy so = (case so of None \<Rightarrow> False | Some s \<Rightarrow> s \<noteq> [])"

text \<open>\<open>a || b\<close> on optional strings.\<close>

definition js_or :: "string option \<Rightarrow> string option \<Rightarrow> string option" where
  "js_or a b = (if truthy a then a else b)"

text \<open>An optional string inside a template literal: \<open>undefined\<close> renders as the word.\<close>

definition render :: "string option \<Rightarrow> string" where
  "render so = (case so of None \<Rightarrow> ''undefined'' | Some s \<Rightarrow> s)"

subsection \<open>Arrays, maps and sets\<close>

text \<open>
  A \<open>Map\<close> iterates in insertion order, so it is an association list with distinct keys:
  \<open>map_of m k\<close> is \<open>m.get(k)\<close>, \<open>AList.update k v m\<close> is \<open>m.set(k, v)\<close> (the value is replaced
  in place when the key is present and appended otherwise). A \<open>Set\<close> is a list without
  repetitions, in insertion order.
\<close>

type_synonym ('k, 'v) jsmap = "('k \<times> 'v) list"

text \<open>\<open>if (!m.has(k)) m.set(k, []); m.get(k)!.push(v)\<close>\<close>

definition map_push :: "'k \<Rightarrow> 'v \<Rightarrow> ('k, 'v list) jsmap \<Rightarrow> ('k, 'v list) jsmap" where
  "map_push k v m =
     (case map_of m k of
        None \<Rightarrow> AList.update k [v] m
      | Some vs \<Rightarrow> AList.update k (vs @ [v]) m)"

definition set_add :: "'a \<Rightarrow> 'a list \<Rightarrow> 'a list" where
  "set_add x xs = (if x \<in> set xs then xs else xs @ [x])"

text \<open>\<open>if (!m.has(k)) m.set(k, new Set()); m.get(k)!.add(v)\<close>\<close>

definition map_add :: "'k \<Rightarrow> 'v \<Rightarrow> ('k, 'v list) jsmap \<Rightarrow> ('k, 'v list) jsmap" where
  "map_add k v m =
     (case map_of m k of
        None \<Rightarrow> AList.update k [v] m
      | Some vs \<Rightarrow> AList.update k (set_add v vs) m)"

text \<open>\<open>xs.slice(start, fin)\<close> for integer arguments: a negative index counts from the end,
  and both are clamped to the array.\<close>

definition js_slice :: "'a list \<Rightarrow> int \<Rightarrow> int \<Rightarrow> 'a list" where
  "js_slice xs start fin =
     (let n = int (length xs);
          k = (if start < 0 then max (n + start) 0 else min start n);
          f = (if fin < 0 then max (n + fin) 0 else min fin n)
      in take (nat (f - k)) (drop (nat k) xs))"

text \<open>
  \<open>xs.sort(cmp)\<close> is a stable sort. \<open>after a b\<close> stands for \<open>cmp(a, b) > 0\<close>. For a consistent
  comparator the stable sorted arrangement is unique, and insertion from the left computes it.
\<close>

fun insert_sorted :: "('a \<Rightarrow> 'a \<Rightarrow> bool) \<Rightarrow> 'a \<Rightarrow> 'a list \<Rightarrow> 'a list" where
  "insert_sorted after x [] = [x]"
| "insert_sorted after x (y # ys) =
     (if after y x then x # y # ys else y # insert_sorted after x ys)"

definition js_sort :: "('a \<Rightarrow> 'a \<Rightarrow> bool) \<Rightarrow> 'a list \<Rightarrow> 'a list" where
  "js_sort after xs = foldl (\<lambda>acc x. insert_sorted after x acc) [] xs"

subsection \<open>Numbers\<close>

text \<open>
  A number is a real or one of the three special values. Finite results are exact: rounding
  is left out, and no count of documents is large enough to overflow.
\<close>

datatype jsnum = Num real | PosInf | NegInf | NaN

definition isFinite :: "jsnum \<Rightarrow> bool" where
  "isFinite x = (case x of Num r \<Rightarrow> True | _ \<Rightarrow> False)"

text \<open>\<open>n / d\<close> for two counts.\<close>

definition js_div_count :: "nat \<Rightarrow> nat \<Rightarrow> jsnum" where
  "js_div_count n d =
     (if d \<noteq> 0 then Num (real n / real d) else if n = 0 then NaN else PosInf)"

definition js_log :: "jsnum \<Rightarrow> jsnum" where
  "js_log x =
     (case x of
        Num r \<Rightarrow> (if r > 0 then Num (ln r) else if r = 0 then NegInf else NaN)
      | PosInf \<Rightarrow> PosInf
      | NegInf \<Rightarrow> NaN
      | NaN \<Rightarrow> NaN)"

definition js_neg :: "jsnum \<Rightarrow> jsnum" where
  "js_neg x = (case x of Num r \<Rightarrow> Num (- r) | PosInf \<Rightarrow> NegInf | NegInf \<Rightarrow> PosInf | NaN \<Rightarrow> NaN)"

fun js_mul :: "jsnum \<Rightarrow> jsnum \<Rightarrow> jsnum" where
  "js_mul (Num a) (Num b) = Num (a * b)"
| "js_mul NaN y = NaN"
| "js_mul x NaN = NaN"
| "js_mul (Num a) PosInf = (if a > 0 then PosInf else if a < 0 then NegInf else NaN)"
| "js_mul (Num a) NegInf = (if a > 0 then NegInf else if a < 0 then PosInf else NaN)"
| "js_mul PosInf (Num b) = (if b > 0 then PosInf else if b < 0 then NegInf else NaN)"
| "js_mul NegInf (Num b) = (if b > 0 then NegInf else if b < 0 then PosInf else NaN)"
| "js_mul PosInf PosInf = PosInf"
| "js_mul NegInf NegInf = PosInf"
| "js_mul PosInf NegInf = NegInf"
| "js_mul NegInf PosInf = NegInf"

fun js_add :: "jsnum \<Rightarrow> jsnum \<Rightarrow> jsnum" where
  "js_add (Num a) (Num b) = Num (a + b)"
| "js_add NaN y = NaN"
| "js_add x NaN = NaN"
| "js_add PosInf NegInf = NaN"
| "js_add NegInf PosInf = NaN"
| "js_add PosInf y = PosInf"
| "js_add NegInf y = NegInf"
| "js_add (Num a) PosInf = PosInf"
| "js_add (Num a) NegInf = NegInf"

definition js_sub :: "jsnum \<Rightarrow> jsnum \<Rightarrow> jsnum" where
  "js_sub x y = js_add x (js_neg y)"

text \<open>\<open>x > 0\<close>, false for \<open>NaN\<close>.\<close>

definition js_positive :: "jsnum \<Rightarrow> bool" where
  "js_positive x = (case x of Num r \<Rightarrow> r > 0 | PosInf \<Rightarrow> True | _ \<Rightarrow> False)"

section \<open>Document model (types.ts)\<close>

datatype Schema =
  Schema (schema_type: "string option")
         (schema_items: "Schema option")
         (schema_properties: "(string \<times> Schema) list option")
         (schema_title: "string option")
         (schema_ref: "string option")

record Parameter =
  param_name :: string
  param_in :: string
  param_description :: "string option"
  param_schema :: "Schema option"

record Response =
  resp_description :: string
  resp_schema :: "Schema option"

text \<open>\<open>op_responses\<close> lists the record in the order of \<open>Object.entries\<close>.\<close>

record Operation =
  op_summary :: "string option"
  op_description :: "string option"
  op_operationId :: "string option"
  op_tags :: "string list option"
  op_parameters :: "Parameter list option"
  op_responses :: "(string \<times> Response) list option"
  op_x_response_schema :: "string option"

record PathItem =
  pi_get :: "Operation option"
  pi_post :: "Operation option"
  pi_put :: "Operation option"
  pi_patch :: "Operation option"
  pi_delete :: "Operation option"
  pi_head :: "Operation option"
  pi_options :: "Operation option"

record Tag =
  tag_name :: string
  tag_description :: "string option"

text \<open>\<open>spec_paths\<close> lists the paths in the order of \<open>Object.entries\<close>.\<close>

record SwaggerSpec =
  spec_tags :: "Tag list"
  spec_paths :: "(string \<times> PathItem) list"

record EndpointResult =
  er_path :: string
  er_method :: string
  er_summary :: "string option"
  er_description :: "string option"
  er_operationId :: "string option"
  er_tags :: "string list option"
  er_parameters :: "Parameter list option"

record Location =
  loc_path :: string
  loc_method :: string

record EndpointIndex =
  ei_paths :: "(string, (string, Operation) jsmap) jsmap"
  ei_tags :: "(string, EndpointResult list) jsmap"
  ei_operationIds :: "(string, Location) jsmap"

text \<open>Every occurrence the code creates has a path and a method; only the name may be absent.\<close>

record SchemaResult =
  sr_schemaName :: "string option"
  sr_path :: string
  sr_method :: string
  sr_schema :: Schema

record SchemaIndex =
  si_byName :: "(string, SchemaResult list) jsmap"
  si_byProperty :: "(string, SchemaResult list) jsmap"

record Document =
  doc_path :: string
  doc_method :: string
  doc_content :: string
  doc_summary :: "string option"
  doc_description :: "string option"

record FulltextIndex =
  fi_words :: "(string, string list) jsmap"
  fi_documents :: "(string, Document) jsmap"

section \<open>The tokenizer\<close>

text \<open>\<open>.replace(/[^a-z0-9\s]/g, ' ')\<close>\<close>

definition replace_non_alnum :: "string \<Rightarrow> string" where
  "replace_non_alnum s = map (\<lambda>c. if is_alnum c \<or> is_space c then c else CHR '' '') s"

text \<open>
  \<open>.split(/\s+/)\<close>: the pieces between the maximal runs of white space. A run at either end
  of the string leaves an empty piece there, and the empty string splits into one empty piece.
\<close>

function split_ws_from :: "string \<Rightarrow> string \<Rightarrow> string list" where
  "split_ws_from cur [] = [cur]"
| "split_ws_from cur (c # cs) =
     (if is_space c then cur # split_ws_from [] (dropWhile is_space cs)
      else split_ws_from (cur @ [c]) cs)"
  by pat_completeness auto
termination
  by (relation "measure (\<lambda>(cur, s). length s)")
     (auto simp: less_Suc_eq_le length_dropWhile_le)

definition split_ws :: "string \<Rightarrow> string list" where
  "split_ws s = split_ws_from [] s"

text \<open>The private method \<open>SwaggerLoader.tokenize\<close>, used when the index is built.\<close>

definition SwaggerLoader_tokenize :: "string \<Rightarrow> string list" where
  "SwaggerLoader_tokenize text =
     filter (\<lambda>word. length word > 2) (split_ws (replace_non_alnum (toLowerCase text)))"

text \<open>The function \<open>tokenize\<close> of the fulltext search module, used on the query.\<close>

definition tokenize :: "string \<Rightarrow> string list" where
  "tokenize text =
     filter (\<lambda>word. length word > 2) (split_ws (replace_non_alnum (toLowerCase text)))"

section \<open>The index builder (swagger-loader.ts)\<close>

definition methods :: "string list" where
  "methods = [''get'', ''post'', ''put'', ''patch'', ''delete'', ''head'', ''options'']"

text \<open>\<open>pathItem[method]\<close>\<close>

definition pathItem_at :: "PathItem \<Rightarrow> string \<Rightarrow> Operation option" where
  "pathItem_at pathItem method =
     (if method = ''get'' then pi_get pathItem
      else if method = ''post'' then pi_post pathItem
      else if method = ''put'' then pi_put pathItem
      else if method = ''patch'' then pi_patch pathItem
      else if method = ''delete'' then pi_delete pathItem
      else if method = ''head'' then pi_head pathItem
      else if method = ''options'' then pi_options pathItem
      else None)"

definition endpoint_of :: "string \<Rightarrow> string \<Rightarrow> Operation \<Rightarrow> EndpointResult" where
  "endpoint_of path method operation =
     \<lparr>er_path = path, er_method = method,
      er_summary = op_summary operation,
      er_description = op_description operation,
      er_operationId = op_operationId operation,
      er_tags = op_tags operation,
      er_parameters = op_parameters operation\<rparr>"

subsection \<open>buildEndpointIndex\<close>

type_synonym endpoint_acc =
  "(string, Operation) jsmap \<times> (string, EndpointResult list) jsmap \<times> (string, Location) jsmap"

text \<open>The body of the loop over the seven methods, for one path.\<close>

definition endpoint_method_step ::
  "string \<Rightarrow> PathItem \<Rightarrow> string \<Rightarrow> endpoint_acc \<Rightarrow> endpoint_acc" where
  "endpoint_method_step path pathItem method acc =
     (case acc of (methodMap, tags, operationIds) \<Rightarrow>
        (case pathItem_at pathItem method of
           None \<Rightarrow> (methodMap, tags, operationIds)
         | Some operation \<Rightarrow>
             (AList.update (toUpperCase method) operation methodMap,
              (case op_tags operation of
                 None \<Rightarrow> tags
               | Some ts \<Rightarrow>
                   fold (\<lambda>tag. map_push tag (endpoint_of path (toUpperCase method) operation))
                     ts tags),
              (if truthy (op_operationId operation)
               then AList.update (render (op_operationId operation))
                      \<lparr>loc_path = path, loc_method = toUpperCase method\<rparr> operationIds
               else operationIds))))"

type_synonym endpoint_state =
  "(string, (string, Operation) jsmap) jsmap \<times> (string, EndpointResult list) jsmap
     \<times> (string, Location) jsmap"

definition endpoint_path_step :: "string \<times> PathItem \<Rightarrow> endpoint_state \<Rightarrow> endpoint_state" where
  "endpoint_path_step entry st =
     (case entry of (path, pathItem) \<Rightarrow>
      case st of (paths, tags, operationIds) \<Rightarrow>
      case fold (endpoint_method_step path pathItem) methods ([], tags, operationIds) of
        (methodMap, tags', operationIds') \<Rightarrow>
          ((if length methodMap > 0 then AList.update path methodMap paths else paths),
           tags', operationIds'))"

definition buildEndpointIndex :: "SwaggerSpec \<Rightarrow> EndpointIndex" where
  "buildEndpointIndex spec =
     (case fold endpoint_path_step (spec_paths spec) ([], [], []) of
        (paths, tags, operationIds) \<Rightarrow>
          \<lparr>ei_paths = paths, ei_tags = tags, ei_operationIds = operationIds\<rparr>)"

subsection \<open>buildSchemaIndex\<close>

text \<open>
  \<open>indexSchemaProperties\<close>: the names of the schema's own properties are registered, and the
  method calls itself on the item schema when there is one. The schemas of the properties
  are not visited. This is what the method returns when the call stack has room for all the
  calls; \<open>indexSchemaProperties_frames\<close>, further down, counts the frames.
\<close>

fun indexSchemaProperties ::
  "Schema \<Rightarrow> SchemaResult \<Rightarrow> (string, SchemaResult list) jsmap
     \<Rightarrow> (string, SchemaResult list) jsmap" where
  "indexSchemaProperties (Schema ty its props ti rf) schemaResult byProperty =
     (let byProperty' =
            (case props of
               None \<Rightarrow> byProperty
             | Some ps \<Rightarrow> fold (\<lambda>propName. map_push propName schemaResult) (map fst ps) byProperty)
      in case its of
           None \<Rightarrow> byProperty'
         | Some it \<Rightarrow> indexSchemaProperties it schemaResult byProperty')"

type_synonym schema_acc =
  "(string, SchemaResult list) jsmap \<times> (string, SchemaResult list) jsmap"

text \<open>The body of the loop over the responses of one operation.\<close>

definition schema_response_step ::
  "string \<Rightarrow> string \<Rightarrow> Operation \<Rightarrow> string \<times> Response \<Rightarrow> schema_acc \<Rightarrow> schema_acc" where
  "schema_response_step path method operation entry acc =
     (case acc of (byName, byProperty) \<Rightarrow>
        (case resp_schema (snd entry) of
           None \<Rightarrow> (byName, byProperty)
         | Some schema \<Rightarrow>
             (let schemaName = js_or (op_x_response_schema operation) (schema_title schema);
                  schemaResult = \<lparr>sr_schemaName = schemaName, sr_path = path,
                                  sr_method = toUpperCase method, sr_schema = schema\<rparr>
              in ((if truthy schemaName then map_push (render schemaName) schemaResult byName
                   else byName),
                  indexSchemaProperties schema schemaResult byProperty))))"

definition schema_method_step :: "string \<Rightarrow> PathItem \<Rightarrow> string \<Rightarrow> schema_acc \<Rightarrow> schema_acc" where
  "schema_method_step path pathItem method acc =
     (case pathItem_at pathItem method of
        None \<Rightarrow> acc
      | Some operation \<Rightarrow>
          (case op_responses operation of
             None \<Rightarrow> acc
           | Some rs \<Rightarrow> fold (schema_response_step path method operation) rs acc))"

definition schema_path_step :: "string \<times> PathItem \<Rightarrow> schema_acc \<Rightarrow> schema_acc" where
  "schema_path_step entry acc = fold (schema_method_step (fst entry) (snd entry)) methods acc"

definition buildSchemaIndex :: "SwaggerSpec \<Rightarrow> SchemaIndex" where
  "buildSchemaIndex spec =
     (case fold schema_path_step (spec_paths spec) ([], []) of
        (names, props) \<Rightarrow> \<lparr>si_byName = names, si_byProperty = props\<rparr>)"

subsection \<open>buildFulltextIndex\<close>

definition param_parts :: "Parameter \<Rightarrow> string list" where
  "param_parts param =
     (if truthy (param_description param) then [render (param_description param)] else [])
     @ [param_name param]"

definition contentParts :: "Operation \<Rightarrow> string list" where
  "contentParts operation =
     (if truthy (op_summary operation) then [render (op_summary operation)] else [])
     @ (if truthy (op_description operation) then [render (op_description operation)] else [])
     @ (case op_parameters operation of
          None \<Rightarrow> []
        | Some params \<Rightarrow> concat (map param_parts params))"

type_synonym fulltext_acc = "(string, string list) jsmap \<times> (string, Document) jsmap"

definition fulltext_method_step ::
  "string \<Rightarrow> PathItem \<Rightarrow> string \<Rightarrow> fulltext_acc \<Rightarrow> fulltext_acc" where
  "fulltext_method_step path pathItem method acc =
     (case acc of (wordsMap, documents) \<Rightarrow>
        (case pathItem_at pathItem method of
           None \<Rightarrow> (wordsMap, documents)
         | Some operation \<Rightarrow>
             (let docId = toUpperCase method @ '':'' @ path;
                  content = join_space (contentParts operation);
                  documents' = AList.update docId
                    \<lparr>doc_path = path, doc_method = toUpperCase method, doc_content = content,
                     doc_summary = op_summary operation,
                     doc_description = op_description operation\<rparr> documents;
                  tokens = SwaggerLoader_tokenize content
              in (fold (\<lambda>token. map_add token docId) tokens wordsMap, documents'))))"

definition fulltext_path_step :: "string \<times> PathItem \<Rightarrow> fulltext_acc \<Rightarrow> fulltext_acc" where
  "fulltext_path_step entry acc =
     fold (fulltext_method_step (fst entry) (snd entry)) methods acc"

definition buildFulltextIndex :: "SwaggerSpec \<Rightarrow> FulltextIndex" where
  "buildFulltextIndex spec =
     (case fold fulltext_path_step (spec_paths spec) ([], []) of
        (wordsMap, documents) \<Rightarrow> \<lparr>fi_words = wordsMap, fi_documents = documents\<rparr>)"

subsection \<open>The loader and its accessors\<close>

datatype error =
    SpecNotLoaded       \<comment> \<open>Swagger spec not loaded. Call load() first.\<close>
  | IndexesNotBuilt     \<comment> \<open>Indexes not built. Call load() first.\<close>
  | BuildWithoutSpec    \<comment> \<open>Spec not loaded\<close>
  | ReadFailed          \<comment> \<open>\<open>readFile\<close> rejected or \<open>JSON.parse\<close> threw\<close>
  | TypeError           \<comment> \<open>a property of \<open>undefined\<close> was read\<close>
  | RangeError          \<comment> \<open>Maximum call stack size exceeded\<close>

record SwaggerLoader =
  ld_spec :: "SwaggerSpec option"
  ld_endpointIndex :: "EndpointIndex option"
  ld_schemaIndex :: "SchemaIndex option"
  ld_fulltextIndex :: "FulltextIndex option"

text \<open>\<open>new SwaggerLoader()\<close>\<close>

definition new_loader :: SwaggerLoader where
  "new_loader = \<lparr>ld_spec = None, ld_endpointIndex = None, ld_schemaIndex = None, ld_fulltextIndex = None\<rparr>"


definition getEndpointIndex :: "SwaggerLoader \<Rightarrow> error + EndpointIndex" where
  "getEndpointIndex loader =
     (case ld_endpointIndex loader of None \<Rightarrow> Inl IndexesNotBuilt | Some i \<Rightarrow> Inr i)"

definition getSchemaIndex :: "SwaggerLoader \<Rightarrow> error + SchemaIndex" where
  "getSchemaIndex loader =
     (case ld_schemaIndex loader of None \<Rightarrow> Inl IndexesNotBuilt | Some i \<Rightarrow> Inr i)"

definition getFulltextIndex :: "SwaggerLoader \<Rightarrow> error + FulltextIndex" where
  "getFulltextIndex loader =
     (case ld_fulltextIndex loader of None \<Rightarrow> Inl IndexesNotBuilt | Some i \<Rightarrow> Inr i)"

text \<open>
  A call returns the loader as the call leaves it, and the exception if one was thrown.
  \<open>buildIndexes\<close> and \<open>load\<close> are given here as they run when no builder throws, that is,
  on a call stack with room for every item chain of the document; \<open>buildIndexes_frames\<close> and
  \<open>load_frames\<close>, further down, are the two methods with the frames counted, where a builder
  can throw between two assignments.
\<close>

definition buildIndexes :: "SwaggerLoader \<Rightarrow> SwaggerLoader \<times> error option" where
  "buildIndexes loader =
     (case ld_spec loader of
        None \<Rightarrow> (loader, Some BuildWithoutSpec)
      | Some s \<Rightarrow>
          (loader\<lparr>ld_endpointIndex := Some (buildEndpointIndex s),
                  ld_schemaIndex := Some (buildSchemaIndex s),
                  ld_fulltextIndex := Some (buildFulltextIndex s)\<rparr>, None))"

text \<open>
  \<open>load\<close>: what reading and parsing the file gave is the argument: \<open>Inl e\<close> when \<open>readFile\<close>
  or \<open>JSON.parse\<close> failed, \<open>Inr None\<close> when the file holds the JSON value \<open>null\<close>, and
  \<open>Inr (Some s)\<close> for a document of the shape that \<open>types.ts\<close> declares. The method does
  not check the shape; a parsed value of another shape is outside the model.
\<close>

definition load :: "error + SwaggerSpec option \<Rightarrow> SwaggerLoader \<Rightarrow> SwaggerLoader \<times> error option" where
  "load parsed loader =
     (case parsed of
        Inl e \<Rightarrow> (loader, Some e)
      | Inr sp \<Rightarrow> buildIndexes (loader\<lparr>ld_spec := sp\<rparr>))"

section \<open>The query resolvers\<close>

subsection \<open>searchEndpoints (endpoint-search.ts)\<close>

record EndpointSearchParams =
  esp_path :: "string option"
  esp_method :: "string option"
  esp_operationId :: "string option"
  esp_tag :: "string option"
  esp_limit :: "int option"

text \<open>\<open>index.paths.get(p)?.get(m)\<close>\<close>

definition lookup_operation :: "EndpointIndex \<Rightarrow> string \<Rightarrow> string \<Rightarrow> Operation option" where
  "lookup_operation index p m =
     (case map_of (ei_paths index) p of None \<Rightarrow> None | Some ms \<Rightarrow> map_of ms m)"

text \<open>The branch taken when \<open>operationId\<close> is truthy.\<close>

definition search_by_operationId :: "EndpointIndex \<Rightarrow> string \<Rightarrow> EndpointResult list" where
  "search_by_operationId index operationId =
     (let normalizedOpId = toLowerCase operationId
      in concat (map (\<lambda>(opId, location).
           if str_includes (toLowerCase opId) normalizedOpId
           then (case lookup_operation index (loc_path location) (loc_method location) of
                   None \<Rightarrow> []
                 | Some operation \<Rightarrow>
                     [endpoint_of (loc_path location) (loc_method location) operation])
           else []) (ei_operationIds index)))"

text \<open>\<open>operation.tags?.some(t => t.toLowerCase().includes(normalizedTag))\<close>\<close>

definition some_tag_includes :: "Operation \<Rightarrow> string \<Rightarrow> bool" where
  "some_tag_includes operation normalizedTag =
     (case op_tags operation of
        None \<Rightarrow> False
      | Some ts \<Rightarrow> list_ex (\<lambda>t. str_includes (toLowerCase t) normalizedTag) ts)"

text \<open>The other branch: every filter that is given must let the endpoint through.\<close>

definition search_by_filters ::
  "EndpointIndex \<Rightarrow> string option \<Rightarrow> string option \<Rightarrow> string option \<Rightarrow> EndpointResult list" where
  "search_by_filters index path method tag =
     concat (map (\<lambda>(pathStr, ms).
       if truthy path \<and> \<not> str_includes (toLowerCase pathStr) (toLowerCase (render path))
       then []
       else concat (map (\<lambda>(methodStr, operation).
              if truthy method \<and> toUpperCase methodStr \<noteq> toUpperCase (render method) then []
              else if truthy tag \<and> \<not> some_tag_includes operation (toLowerCase (render tag))
              then []
              else [endpoint_of pathStr methodStr operation]) ms)) (ei_paths index))"

definition searchEndpoints ::
  "SwaggerLoader \<Rightarrow> EndpointSearchParams \<Rightarrow> error + EndpointResult list" where
  "searchEndpoints loader params =
     (let limit = (case esp_limit params of None \<Rightarrow> 10 | Some l \<Rightarrow> l)
      in case getEndpointIndex loader of
           Inl e \<Rightarrow> Inl e
         | Inr index \<Rightarrow>
             Inr (js_slice
                   (if truthy (esp_operationId params)
                    then search_by_operationId index (render (esp_operationId params))
                    else search_by_filters index (esp_path params) (esp_method params)
                           (esp_tag params))
                   0 limit))"

subsection \<open>searchByTag (tag-search.ts)\<close>




subsection \<open>searchSchemas (schema-search.ts)\<close>

record SchemaSearchParams =
  ssp_schemaName :: "string option"
  ssp_property :: "string option"
  ssp_path :: "string option"
  ssp_method :: "string option"

text \<open>The loops over \<open>byName\<close> and over \<open>byProperty\<close>.\<close>

definition collect_matching ::
  "string \<Rightarrow> (string, SchemaResult list) jsmap \<Rightarrow> SchemaResult list" where
  "collect_matching needle m =
     (let normalized = toLowerCase needle
      in concat (map (\<lambda>(name, schemas).
           if str_includes (toLowerCase name) normalized then schemas else []) m))"

text \<open>The third branch: the occurrences of one operation, made on the fly.\<close>

definition schemas_of_endpoint :: "EndpointIndex \<Rightarrow> string \<Rightarrow> string \<Rightarrow> SchemaResult list" where
  "schemas_of_endpoint pathIndex path method =
     (case lookup_operation pathIndex path (toUpperCase method) of
        None \<Rightarrow> []
      | Some operation \<Rightarrow>
          (case op_responses operation of
             None \<Rightarrow> []
           | Some rs \<Rightarrow>
               concat (map (\<lambda>(code, response).
                 case resp_schema response of
                   None \<Rightarrow> []
                 | Some schema \<Rightarrow>
                     [\<lparr>sr_schemaName = js_or (op_x_response_schema operation) (schema_title schema),
                       sr_path = path, sr_method = toUpperCase method, sr_schema = schema\<rparr>]) rs)))"

text \<open>The key of the template literal \<open>`${result.path}:${result.method}:${result.schemaName}`\<close>.\<close>

definition dedup_key :: "SchemaResult \<Rightarrow> string" where
  "dedup_key result =
     sr_path result @ '':'' @ sr_method result @ '':'' @ render (sr_schemaName result)"

definition removeDuplicates :: "SchemaResult list \<Rightarrow> SchemaResult list" where
  "removeDuplicates results =
     map snd (fold (\<lambda>result uniqueResults.
                 if map_of uniqueResults (dedup_key result) = None
                 then AList.update (dedup_key result) result uniqueResults
                 else uniqueResults) results [])"

definition searchSchemas :: "SwaggerLoader \<Rightarrow> SchemaSearchParams \<Rightarrow> error + SchemaResult list" where
  "searchSchemas loader params =
     (case getSchemaIndex loader of
        Inl e \<Rightarrow> Inl e
      | Inr index \<Rightarrow>
          if truthy (ssp_schemaName params)
          then Inr (removeDuplicates
                 (collect_matching (render (ssp_schemaName params)) (si_byName index)))
          else if truthy (ssp_property params)
          then Inr (removeDuplicates
                 (collect_matching (render (ssp_property params)) (si_byProperty index)))
          else if truthy (ssp_path params) \<and> truthy (ssp_method params)
          then (case getEndpointIndex loader of
                  Inl e \<Rightarrow> Inl e
                | Inr pathIndex \<Rightarrow>
                    Inr (removeDuplicates
                      (schemas_of_endpoint pathIndex (render (ssp_path params))
                         (render (ssp_method params)))))
          else Inr (removeDuplicates []))"

subsection \<open>fulltextSearch (fulltext-search.ts)\<close>

record FulltextSearchParams =
  fsp_query :: string
  fsp_limit :: "int option"

record ScoreData =
  sd_score :: jsnum
  sd_matchedFields :: "string list"

record FulltextSearchResult =
  fr_path :: string
  fr_method :: string
  fr_summary :: "string option"
  fr_description :: "string option"
  fr_score :: jsnum
  fr_matchedFields :: "string list"

text \<open>A loop whose body may throw: the first exception ends it.\<close>

fun fold_err :: "('a \<Rightarrow> 's \<Rightarrow> error + 's) \<Rightarrow> 'a list \<Rightarrow> 's \<Rightarrow> error + 's" where
  "fold_err f [] s = Inr s"
| "fold_err f (x # xs) s = (case f x s of Inl e \<Rightarrow> Inl e | Inr s' \<Rightarrow> fold_err f xs s')"

text \<open>\<open>doc.summary?.toLowerCase().includes(token)\<close>\<close>

definition field_includes :: "string option \<Rightarrow> string \<Rightarrow> bool" where
  "field_includes field token =
     (case field of None \<Rightarrow> False | Some s \<Rightarrow> str_includes (toLowerCase s) token)"

text \<open>
  The body of the loop over the documents of one token. Reading a field of a document that
  \<open>documents\<close> does not hold throws.
\<close>

definition score_doc_step ::
  "FulltextIndex \<Rightarrow> nat \<Rightarrow> string \<Rightarrow> string list \<Rightarrow> string \<Rightarrow> (string, ScoreData) jsmap
     \<Rightarrow> error + (string, ScoreData) jsmap" where
  "score_doc_step index queryLength token docIds docId scores =
     (let scoreData =
            (case map_of scores docId of
               None \<Rightarrow> \<lparr>sd_score = Num 0, sd_matchedFields = []\<rparr>
             | Some sd \<Rightarrow> sd);
          tf = js_div_count 1 queryLength;
          idf = js_log (js_div_count (length (fi_documents index)) (length docIds));
          score' = js_add (sd_score scoreData) (js_mul tf idf)
      in case map_of (fi_documents index) docId of
           None \<Rightarrow> Inl TypeError
         | Some doc \<Rightarrow>
             (let fields1 = (if field_includes (doc_summary doc) token
                             then set_add ''summary'' (sd_matchedFields scoreData)
                             else sd_matchedFields scoreData);
                  fields2 = (if field_includes (doc_description doc) token
                             then set_add ''description'' fields1
                             else fields1)
              in Inr (AList.update docId \<lparr>sd_score = score', sd_matchedFields = fields2\<rparr>
                        scores)))"

definition score_token_step ::
  "FulltextIndex \<Rightarrow> nat \<Rightarrow> string \<Rightarrow> (string, ScoreData) jsmap
     \<Rightarrow> error + (string, ScoreData) jsmap" where
  "score_token_step index queryLength token scores =
     (case map_of (fi_words index) token of
        None \<Rightarrow> Inr scores
      | Some docIds \<Rightarrow> fold_err (score_doc_step index queryLength token docIds) docIds scores)"

fun collect_results ::
  "FulltextIndex \<Rightarrow> (string \<times> ScoreData) list \<Rightarrow> error + FulltextSearchResult list" where
  "collect_results index [] = Inr []"
| "collect_results index ((docId, scoreData) # rest) =
     (case map_of (fi_documents index) docId of
        None \<Rightarrow> Inl TypeError
      | Some doc \<Rightarrow>
          (case collect_results index rest of
             Inl e \<Rightarrow> Inl e
           | Inr rs \<Rightarrow>
               Inr (\<lparr>fr_path = doc_path doc, fr_method = doc_method doc,
                     fr_summary = doc_summary doc, fr_description = doc_description doc,
                     fr_score = sd_score scoreData,
                     fr_matchedFields = sd_matchedFields scoreData\<rparr> # rs)))"

text \<open>The comparator \<open>(a, b) => b.score - a.score\<close> is positive.\<close>

definition score_after :: "FulltextSearchResult \<Rightarrow> FulltextSearchResult \<Rightarrow> bool" where
  "score_after a b = js_positive (js_sub (fr_score b) (fr_score a))"

definition fulltextSearch ::
  "SwaggerLoader \<Rightarrow> FulltextSearchParams \<Rightarrow> error + FulltextSearchResult list" where
  "fulltextSearch loader params =
     (let limit = (case fsp_limit params of None \<Rightarrow> 10 | Some l \<Rightarrow> l)
      in case getFulltextIndex loader of
           Inl e \<Rightarrow> Inl e
         | Inr index \<Rightarrow>
             (let queryTokens = tokenize (fsp_query params)
              in if length queryTokens = 0 then Inr []
                 else (case fold_err (score_token_step index (length queryTokens))
                              queryTokens [] of
                         Inl e \<Rightarrow> Inl e
                       | Inr scores \<Rightarrow>
                           (case collect_results index scores of
                              Inl e \<Rightarrow> Inl e
                            | Inr results \<Rightarrow>
                                Inr (js_slice (js_sort score_after results) 0 limit)))))"

subsection \<open>listEndpoints\<close>

record ListEndpointsParams =
  lep_limit :: "int option"
  lep_offset :: "int option"

record EndpointListItem =
  li_path :: string
  li_method :: string
  li_summary :: "string option"
  li_operationId :: "string option"
  li_tags :: "string list option"

text \<open>
  \<open>localeCompare\<close> belongs to the platform, and its order depends on the locale: it is the
  parameter \<open>lc\<close>, negative, zero or positive.
  \<open>a.path.localeCompare(b.path) || a.method.localeCompare(b.method)\<close>
\<close>

definition list_compare ::
  "(string \<Rightarrow> string \<Rightarrow> int) \<Rightarrow> EndpointListItem \<Rightarrow> EndpointListItem \<Rightarrow> int" where
  "list_compare lc a b =
     (if lc (li_path a) (li_path b) \<noteq> 0 then lc (li_path a) (li_path b)
      else lc (li_method a) (li_method b))"

definition all_endpoints :: "EndpointIndex \<Rightarrow> EndpointListItem list" where
  "all_endpoints index =
     concat (map (\<lambda>(path, ms).
       map (\<lambda>(method, operation).
         \<lparr>li_path = path, li_method = toUpperCase method,
          li_summary = op_summary operation,
          li_operationId = op_operationId operation,
          li_tags = op_tags operation\<rparr>) ms) (ei_paths index))"

definition listEndpoints ::
  "(string \<Rightarrow> string \<Rightarrow> int) \<Rightarrow> SwaggerLoader \<Rightarrow> ListEndpointsParams
     \<Rightarrow> error + EndpointListItem list" where
  "listEndpoints lc loader params =
     (case getEndpointIndex loader of
        Inl e \<Rightarrow> Inl e
      | Inr index \<Rightarrow>
          (let limit = (case lep_limit params of None \<Rightarrow> 50 | Some l \<Rightarrow> l);
               offset = (case lep_offset params of None \<Rightarrow> 0 | Some k \<Rightarrow> k)
           in Inr (js_slice (js_sort (\<lambda>a b. list_compare lc a b > 0) (all_endpoints index))
                     offset (offset + limit))))"

section \<open>The loader on a bounded call stack\<close>

text \<open>
  \<open>indexSchemaProperties\<close> calls itself once for each level of the item chain, and every
  call takes a frame of the call stack. \<open>frames\<close> is the number of nested calls of the method
  that the stack has room for when \<open>buildSchemaIndex\<close> calls it; the number depends on the
  engine. A call for which no room is left throws \<open>RangeError\<close>, and nothing catches it: it
  leaves \<open>buildSchemaIndex\<close>, \<open>buildIndexes\<close> and \<open>load\<close>. The other two builders are loops
  without recursion.
\<close>

fun indexSchemaProperties_frames ::
  "nat \<Rightarrow> Schema \<Rightarrow> SchemaResult \<Rightarrow> (string, SchemaResult list) jsmap
     \<Rightarrow> error + (string, SchemaResult list) jsmap" where
  "indexSchemaProperties_frames frames (Schema ty its props ti rf) schemaResult byProperty =
     (if frames = 0 then Inl RangeError
      else (let byProperty' =
                  (case props of
                     None \<Rightarrow> byProperty
                   | Some ps \<Rightarrow>
                       fold (\<lambda>propName. map_push propName schemaResult) (map fst ps) byProperty)
            in case its of
                 None \<Rightarrow> Inr byProperty'
               | Some it \<Rightarrow> indexSchemaProperties_frames (frames - 1) it schemaResult byProperty'))"

definition schema_response_step_frames ::
  "nat \<Rightarrow> string \<Rightarrow> string \<Rightarrow> Operation \<Rightarrow> string \<times> Response \<Rightarrow> schema_acc
     \<Rightarrow> error + schema_acc" where
  "schema_response_step_frames frames path method operation entry acc =
     (case acc of (byName, byProperty) \<Rightarrow>
        (case resp_schema (snd entry) of
           None \<Rightarrow> Inr (byName, byProperty)
         | Some schema \<Rightarrow>
             (let schemaName = js_or (op_x_response_schema operation) (schema_title schema);
                  schemaResult = \<lparr>sr_schemaName = schemaName, sr_path = path,
                                  sr_method = toUpperCase method, sr_schema = schema\<rparr>
              in case indexSchemaProperties_frames frames schema schemaResult byProperty of
                   Inl e \<Rightarrow> Inl e
                 | Inr byProperty' \<Rightarrow>
                     Inr ((if truthy schemaName
                           then map_push (render schemaName) schemaResult byName
                           else byName),
                          byProperty'))))"

definition schema_method_step_frames ::
  "nat \<Rightarrow> string \<Rightarrow> PathItem \<Rightarrow> string \<Rightarrow> schema_acc \<Rightarrow> error + schema_acc" where
  "schema_method_step_frames frames path pathItem method acc =
     (case pathItem_at pathItem method of
        None \<Rightarrow> Inr acc
      | Some operation \<Rightarrow>
          (case op_responses operation of
             None \<Rightarrow> Inr acc
           | Some rs \<Rightarrow>
               fold_err (schema_response_step_frames frames path method operation) rs acc))"

definition schema_path_step_frames ::
  "nat \<Rightarrow> string \<times> PathItem \<Rightarrow> schema_acc \<Rightarrow> error + schema_acc" where
  "schema_path_step_frames frames entry acc =
     fold_err (schema_method_step_frames frames (fst entry) (snd entry)) methods acc"

definition buildSchemaIndex_frames :: "nat \<Rightarrow> SwaggerSpec \<Rightarrow> error + SchemaIndex" where
  "buildSchemaIndex_frames frames spec =
     (case fold_err (schema_path_step_frames frames) (spec_paths spec) ([], []) of
        Inl e \<Rightarrow> Inl e
      | Inr (names, props) \<Rightarrow> Inr \<lparr>si_byName = names, si_byProperty = props\<rparr>)"

text \<open>
  \<open>buildIndexes\<close>: the three assignments in their order. When \<open>buildSchemaIndex\<close> throws, the
  endpoint index has been assigned, and the other two have not.
\<close>

definition buildIndexes_frames :: "nat \<Rightarrow> SwaggerLoader \<Rightarrow> SwaggerLoader \<times> error option" where
  "buildIndexes_frames frames loader =
     (case ld_spec loader of
        None \<Rightarrow> (loader, Some BuildWithoutSpec)
      | Some s \<Rightarrow>
          (let loader1 = loader\<lparr>ld_endpointIndex := Some (buildEndpointIndex s)\<rparr>
           in case buildSchemaIndex_frames frames s of
                Inl e \<Rightarrow> (loader1, Some e)
              | Inr schemaIndex \<Rightarrow>
                  (loader1\<lparr>ld_schemaIndex := Some schemaIndex,
                           ld_fulltextIndex := Some (buildFulltextIndex s)\<rparr>, None)))"

text \<open>\<open>load\<close>: the specification is assigned before the indexes are built.\<close>

definition load_frames ::
  "nat \<Rightarrow> error + SwaggerSpec option \<Rightarrow> SwaggerLoader \<Rightarrow> SwaggerLoader \<times> error option" where
  "load_frames frames parsed loader =
     (case parsed of
        Inl e \<Rightarrow> (loader, Some e)
      | Inr sp \<Rightarrow> buildIndexes_frames frames (loader\<lparr>ld_spec := sp\<rparr>))"

section \<open>The wording of the specification, and example inputs\<close>

subsection \<open>The tokenizer as the specification words it\<close>

text \<open>
  Splitting on runs of white space, read as: the words of a text are its maximal blocks of
  characters that are not white space.
\<close>

function spec_words :: "string \<Rightarrow> string list" where
  "spec_words [] = []"
| "spec_words (c # cs) =
     (if is_space c then spec_words cs
      else (c # takeWhile (\<lambda>d. \<not> is_space d) cs)
             # spec_words (dropWhile (\<lambda>d. \<not> is_space d) cs))"
  by pat_completeness auto
termination
  by (relation "measure length") (auto simp: less_Suc_eq_le length_dropWhile_le)

text \<open>
  The four steps of the contract: lower-case, put a space for every character outside
  \<open>[a-z0-9]\<close> and white space, split on runs of white space, drop tokens of length 2 or less.
\<close>

definition spec_tokenize :: "string \<Rightarrow> string list" where
  "spec_tokenize text =
     filter (\<lambda>w. \<not> length w \<le> 2)
       (spec_words
          (map (\<lambda>c. if is_alnum c \<or> is_space c then c else CHR '' '') (toLowerCase text)))"

subsection \<open>Schemas: the chain of item schemas\<close>

text \<open>The schema, its item schema, the item schema of that one, and so on.\<close>

fun items_chain :: "Schema \<Rightarrow> Schema list" where
  "items_chain (Schema ty its props ti rf) =
     Schema ty its props ti rf # (case its of None \<Rightarrow> [] | Some it \<Rightarrow> items_chain it)"

definition own_property_names :: "Schema \<Rightarrow> string list" where
  "own_property_names s = (case schema_properties s of None \<Rightarrow> [] | Some ps \<Rightarrow> map fst ps)"

text \<open>
  The specification's reading of the traversal: the schema's own properties and, one level
  down, the properties of its item schema.
\<close>

definition one_level_names :: "Schema \<Rightarrow> string list" where
  "one_level_names s =
     own_property_names s
     @ (case schema_items s of None \<Rightarrow> [] | Some it \<Rightarrow> own_property_names it)"


subsection \<open>Example specifications\<close>

definition no_operations :: PathItem where
  "no_operations =
     \<lparr>pi_get = None, pi_post = None, pi_put = None, pi_patch = None, pi_delete = None,
      pi_head = None, pi_options = None\<rparr>"

definition plain_operation :: Operation where
  "plain_operation =
     \<lparr>op_summary = None, op_description = None, op_operationId = None, op_tags = None,
      op_parameters = None, op_responses = None, op_x_response_schema = None\<rparr>"

text \<open>An array of arrays of objects with one property.\<close>

definition deep_schema :: Schema where
  "deep_schema =
     Schema (Some ''array'')
       (Some (Schema (Some ''array'')
          (Some (Schema (Some ''object'') None
             (Some [(''deep'', Schema (Some ''string'') None None None None)]) None None))
          None None None))
       None (Some ''Grid'') None"

definition deep_spec :: SwaggerSpec where
  "deep_spec =
     \<lparr>spec_tags = [],
      spec_paths =
        [(''/grid/'', no_operations\<lparr>pi_get := Some (plain_operation
            \<lparr>op_responses := Some [(''200'', \<lparr>resp_description = ''OK'',
                                               resp_schema = Some deep_schema\<rparr>)]\<rparr>)\<rparr>)]\<rparr>"


text \<open>Two endpoints, the first with a parameter and a response schema.\<close>

definition file_schema :: Schema where
  "file_schema =
     Schema (Some ''array'')
       (Some (Schema (Some ''object'') None
                (Some [(''id'', Schema (Some ''string'') None None None None),
                       (''name'', Schema (Some ''string'') None None None None)])
                None None))
       None (Some ''FileList'') None"

definition files_list_op :: Operation where
  "files_list_op =
     \<lparr>op_summary = Some ''List all files'',
      op_description = Some ''Returns a list of all files in the system'',
      op_operationId = Some ''files_list'',
      op_tags = Some [''Files''],
      op_parameters = Some [\<lparr>param_name = ''page'', param_in = ''query'',
                              param_description = Some ''Page number for pagination'',
                              param_schema = None\<rparr>],
      op_responses =
        Some [(''200'', \<lparr>resp_description = ''OK'', resp_schema = Some file_schema\<rparr>)],
      op_x_response_schema = None\<rparr>"

definition nodes_list_op :: Operation where
  "nodes_list_op =
     \<lparr>op_summary = Some ''List all nodes'',
      op_description = None,
      op_operationId = Some ''nodes_list'',
      op_tags = Some [''Nodes''],
      op_parameters = None,
      op_responses = None,
      op_x_response_schema = None\<rparr>"

definition example_spec :: SwaggerSpec where
  "example_spec =
     \<lparr>spec_tags = [\<lparr>tag_name = ''Files'', tag_description = Some ''File operations''\<rparr>],
      spec_paths = [(''/files/'', no_operations\<lparr>pi_get := Some files_list_op\<rparr>),
                    (''/nodes/'', no_operations\<lparr>pi_get := Some nodes_list_op\<rparr>)]\<rparr>"

definition example_loader :: SwaggerLoader where
  "example_loader = fst (load (Inr (Some example_spec)) new_loader)"

subsection \<open>Load attempts\<close>




text \<open>The call stack has room for the item chain of every response schema of the document.\<close>

definition stack_suffices :: "nat \<Rightarrow> SwaggerSpec \<Rightarrow> bool" where
  "stack_suffices frames spec =
     list_all (\<lambda>entry.
       list_all (\<lambda>method.
         case pathItem_at (snd entry) method of
           None \<Rightarrow> True
         | Some operation \<Rightarrow>
             (case op_responses operation of
                None \<Rightarrow> True
              | Some rs \<Rightarrow>
                  list_all (\<lambda>response.
                    case resp_schema (snd response) of
                      None \<Rightarrow> True
                    | Some schema \<Rightarrow> length (items_chain schema) \<le> frames) rs)) methods)
       (spec_paths spec)"

text \<open>An optional value as a list of at most one element.\<close>

definition option_list :: "'a option \<Rightarrow> 'a list" where
  "option_list x = (case x of None \<Rightarrow> [] | Some y \<Rightarrow> [y])"

text \<open>
  Two endpoints whose paths differ, with named response schemas: the path of the second
  ends in a colon and a method name, and the schema name of the first starts with them.
\<close>

definition empty_schema :: Schema where
  "empty_schema = Schema None None None None None"

definition colon_spec :: SwaggerSpec where
  "colon_spec =
     \<lparr>spec_tags = [],
      spec_paths =
        [(''/a'', no_operations\<lparr>pi_get := Some (plain_operation
            \<lparr>op_responses := Some [(''200'', \<lparr>resp_description = ''OK'',
                                               resp_schema = Some empty_schema\<rparr>)],
             op_x_response_schema := Some ''GET:X''\<rparr>)\<rparr>),
         (''/a:GET'', no_operations\<lparr>pi_get := Some (plain_operation
            \<lparr>op_responses := Some [(''200'', \<lparr>resp_description = ''OK'',
                                               resp_schema = Some empty_schema\<rparr>)],
             op_x_response_schema := Some ''X''\<rparr>)\<rparr>)]\<rparr>"

definition colon_loader :: SwaggerLoader where
  "colon_loader = fst (load (Inr (Some colon_spec)) new_loader)"

subsection \<open>Texts that differ only in letter case\<close>






subsection \<open>Invariants of the fulltext index and of the score table\<close>

text \<open>Every set of documents in \<open>words\<close> is non-empty, free of repetitions, and made of
  identifiers that \<open>documents\<close> holds.\<close>

definition words_ok :: "(string, string list) jsmap \<Rightarrow> (string, Document) jsmap \<Rightarrow> bool" where
  "words_ok ws ds =
     (\<forall>token docIds. map_of ws token = Some docIds \<longrightarrow>
        docIds \<noteq> [] \<and> distinct docIds \<and> set docIds \<subseteq> fst ` set ds)"

text \<open>Every score in the table is finite, and every document in it is one of \<open>documents\<close>.\<close>

definition scores_ok :: "(string, Document) jsmap \<Rightarrow> (string, ScoreData) jsmap \<Rightarrow> bool" where
  "scores_ok ds scores =
     (\<forall>(docId, scoreData) \<in> set scores.
        isFinite (sd_score scoreData) \<and> docId \<in> fst ` set ds)"

text \<open>The invariant of the loop that builds the fulltext index.\<close>

definition fulltext_ok :: "fulltext_acc \<Rightarrow> bool" where
  "fulltext_ok acc = (words_ok (fst acc) (snd acc) \<and> distinct (map fst (snd acc)))"

subsection \<open>String comparison for the endpoint listing\<close>

text \<open>
  What sorting needs of \<open>localeCompare\<close>: swapping the arguments swaps the sign, and "not
  after" is transitive.
\<close>

definition consistent :: "(string \<Rightarrow> string \<Rightarrow> int) \<Rightarrow> bool" where
  "consistent lc =
     ((\<forall>a b. (lc a b > 0) = (lc b a < 0))
      \<and> (\<forall>a b c. lc a b \<le> 0 \<and> lc b c \<le> 0 \<longrightarrow> lc a c \<le> 0))"

text \<open>Path first, then method: the order the listing is sorted by.\<close>

definition path_then_method ::
  "(string \<Rightarrow> string \<Rightarrow> int) \<Rightarrow> EndpointListItem \<Rightarrow> EndpointListItem \<Rightarrow> bool" where
  "path_then_method lc a b =
     (lc (li_path a) (li_path b) < 0
      \<or> (lc (li_path a) (li_path b) = 0 \<and> lc (li_method a) (li_method b) \<le> 0))"

text \<open>One comparison with these properties: code unit by code unit.\<close>

fun codeunit_compare :: "string \<Rightarrow> string \<Rightarrow> int" where
  "codeunit_compare [] [] = 0"
| "codeunit_compare [] (y # ys) = - 1"
| "codeunit_compare (x # xs) [] = 1"
| "codeunit_compare (x # xs) (y # ys) =
     (if (of_char x :: nat) < of_char y then - 1
      else if (of_char y :: nat) < of_char x then 1
      else codeunit_compare xs ys)"

text \<open>The endpoints \<open>/b/ GET\<close> and \<open>/a/ GET\<close>, in this order in the document.\<close>

definition ba_spec :: SwaggerSpec where
  "ba_spec =
     \<lparr>spec_tags = [],
      spec_paths = [(''/b/'', no_operations\<lparr>pi_get := Some plain_operation\<rparr>),
                    (''/a/'', no_operations\<lparr>pi_get := Some plain_operation\<rparr>)]\<rparr>"

definition list_item :: "string \<Rightarrow> string \<Rightarrow> Operation \<Rightarrow> EndpointListItem" where
  "list_item path method operation =
     \<lparr>li_path = path, li_method = method, li_summary = op_summary operation,
      li_operationId = op_operationId operation, li_tags = op_tags operation\<rparr>"

section \<open>Verified properties\<close>

subsection \<open>The tokenizer\<close>

lemma spec_words_skip: "spec_words (dropWhile is_space s) = spec_words s"
  by (induction s) auto

lemma spec_words_word:
  assumes "w \<noteq> []" and "\<forall>c \<in> set w. \<not> is_space c"
  shows "spec_words (w @ s) =
           (w @ takeWhile (\<lambda>d. \<not> is_space d) s) # spec_words (dropWhile (\<lambda>d. \<not> is_space d) s)"
proof (cases w)
  case Nil
  with assms show ?thesis by simp
next
  case (Cons a w')
  with assms have "\<not> is_space a" and "\<forall>c \<in> set w'. \<not> is_space c" by auto
  then show ?thesis using Cons
    by (simp add: takeWhile_append2 dropWhile_append2)
qed

lemma split_ws_from_words:
  "\<forall>c \<in> set cur. \<not> is_space c \<Longrightarrow>
     filter (\<lambda>w. w \<noteq> []) (split_ws_from cur s) = spec_words (cur @ s)"
proof (induction cur s rule: split_ws_from.induct)
  case (1 cur)
  then show ?case using spec_words_word [of cur "[]"] by (cases "cur = []") auto
next
  case (2 cur c cs)
  show ?case
  proof (cases "is_space c")
    case True
    have rest: "filter (\<lambda>w. w \<noteq> []) (split_ws_from [] (dropWhile is_space cs)) = spec_words cs"
      using "2.IH"(1) [OF True] by (simp add: spec_words_skip)
    show ?thesis
    proof (cases "cur = []")
      case True
      with \<open>is_space c\<close> rest show ?thesis by simp
    next
      case False
      with \<open>is_space c\<close> rest "2.prems" spec_words_word [of cur "c # cs"]
      show ?thesis by simp
    qed
  next
    case False
    with "2.IH"(2) "2.prems" show ?thesis by simp
  qed
qed

lemma filter_long_nonempty:
  "filter (\<lambda>w. length w > 2) ws = filter (\<lambda>w. \<not> length w \<le> 2) (filter (\<lambda>w. w \<noteq> []) ws)"
  by (induction ws) auto

lemma tokenize_refines: "tokenize s = spec_tokenize s"
  unfolding tokenize_def spec_tokenize_def split_ws_def replace_non_alnum_def
  using split_ws_from_words [of "[]"]
  by (simp add: filter_long_nonempty [of "split_ws_from [] _"])

lemma split_ws_from_spaces:
  assumes "\<forall>c \<in> set s. is_space c"
  shows "set (split_ws_from [] s) \<subseteq> {[]}"
proof (cases s)
  case Nil
  then show ?thesis by simp
next
  case (Cons c cs)
  with assms have sp: "is_space c" and "\<forall>d \<in> set cs. is_space d" by auto
  then have d: "dropWhile is_space cs = []" by simp
  show ?thesis unfolding Cons using sp by (simp add: d)
qed

lemma toLowerCase_char_space: "is_space c \<Longrightarrow> toLowerCase_char c = c"
  by (auto simp: toLowerCase_char_def is_space_def Let_def)

lemma tokenize_spaces:
  assumes "\<forall>c \<in> set s. is_space c"
  shows "tokenize s = []"
proof -
  have "replace_non_alnum (toLowerCase s) = s"
    using assms unfolding replace_non_alnum_def toLowerCase_def
    by (induction s) (auto simp: toLowerCase_char_space)
  moreover have "filter (\<lambda>word. length word > 2) (split_ws_from [] s) = []"
    using split_ws_from_spaces [OF assms] by (auto simp: filter_empty_conv)
  ultimately show ?thesis by (simp add: tokenize_def split_ws_def)
qed

text \<open>
  C5. For every text, the tokenizer lower-cases it, puts a space for every character outside
  \<open>[a-z0-9]\<close> and white space, splits on runs of white space and drops the tokens of
  length 2 or less: it agrees with the tokenizer worded by the specification. The function
  used on the query and the one used when the index is built are the same function. It maps
  "file-upload" to "file", "upload", "id" to nothing, "api" to "api", and the empty text and
  every text of white space only to the empty sequence; being a total function, it never fails.
\<close>

theorem tokenize_contract:
  "tokenize s = spec_tokenize s
   \<and> SwaggerLoader_tokenize s = tokenize s
   \<and> tokenize ''file-upload'' = [''file'', ''upload'']
   \<and> tokenize ''id'' = []
   \<and> tokenize ''api'' = [''api'']
   \<and> tokenize [] = []
   \<and> ((\<forall>c \<in> set s. is_space c) \<longrightarrow> tokenize s = [])"
proof -
  have "tokenize ''file-upload'' = [''file'', ''upload'']" by code_simp
  moreover have "tokenize ''id'' = []" by code_simp
  moreover have "tokenize ''api'' = [''api'']" by code_simp
  moreover have "tokenize [] = []" by code_simp
  moreover have "SwaggerLoader_tokenize s = tokenize s"
    by (simp add: SwaggerLoader_tokenize_def tokenize_def)
  ultimately show ?thesis using tokenize_refines tokenize_spaces by blast
qed

theorem tokenize_contract_witness:
  "list_all is_space ''   '' \<and> tokenize ''   '' = []
   \<and> tokenize ''List ALL the files, by id'' = spec_tokenize ''List ALL the files, by id''
   \<and> spec_tokenize ''List ALL the files, by id'' = [''list'', ''all'', ''the'', ''files'']"
proof -
  have sp: "\<forall>c \<in> set ''   ''. is_space c" by (simp add: is_space_def)
  then have "list_all is_space ''   ''" by (simp add: list_all_iff)
  moreover
  have "spec_tokenize ''List ALL the files, by id'' = [''list'', ''all'', ''the'', ''files'']"
    by code_simp
  ultimately show ?thesis
    using sp tokenize_contract [of "''   ''"] tokenize_contract [of "''List ALL the files, by id''"]
    by blast
qed

subsection \<open>Maps\<close>

lemma keys_map_push: "fst ` set (map_push k v m) = insert k (fst ` set m)"
  by (simp add: map_push_def dom_update split: option.split)

lemma keys_fold_map_push:
  "fst ` set (fold (\<lambda>k. map_push k v) ks m) = set ks \<union> fst ` set m"
  by (induction ks arbitrary: m) (auto simp: keys_map_push)

subsection \<open>The schema index\<close>

lemma indexSchemaProperties_chain:
  "indexSchemaProperties s r bp =
     fold (\<lambda>sch. fold (\<lambda>propName. map_push propName r) (own_property_names sch))
       (items_chain s) bp"
proof (induction s r bp rule: indexSchemaProperties.induct)
  case (1 ty its props ti rf r bp)
  show ?case
  proof (cases its)
    case None
    then show ?thesis by (simp add: own_property_names_def split: option.split)
  next
    case (Some it)
    with "1.IH" show ?thesis
      by (simp add: own_property_names_def split: option.split)
  qed
qed

lemma keys_fold_chain:
  "fst ` set (fold (\<lambda>sch. fold (\<lambda>propName. map_push propName r) (own_property_names sch)) ss bp)
     = fst ` set bp \<union> set (concat (map own_property_names ss))"
  by (induction ss arbitrary: bp) (auto simp: keys_fold_map_push)

text \<open>
  C1 at a failing input. In a response schema that is an array of arrays of objects, the
  property \<open>deep\<close> lies two item levels down, outside the one level the specification
  allows, and the builder indexes it: the recursion over item schemas has no bound.
\<close>

theorem one_level_counterexample:
  "one_level_names deep_schema = []
   \<and> map fst (si_byProperty (buildSchemaIndex deep_spec)) = [''deep'']"
  by code_simp

subsection \<open>The loader\<close>


lemma items_chain_not_empty: "0 < length (items_chain s)"
  by (cases s) simp

lemma indexSchemaProperties_frames_eq:
  "indexSchemaProperties_frames frames s r bp =
     (if length (items_chain s) \<le> frames then Inr (indexSchemaProperties s r bp)
      else Inl RangeError)"
proof (induction frames s r bp rule: indexSchemaProperties_frames.induct)
  case (1 frames ty its props ti rf r bp)
  show ?case
  proof (cases "frames = 0")
    case True
    then show ?thesis by simp
  next
    case False
    show ?thesis
    proof (cases its)
      case None
      with False show ?thesis by (simp add: Let_def)
    next
      case (Some it)
      from False have "(length (items_chain it) \<le> frames - 1) = (Suc (length (items_chain it)) \<le> frames)"
        by auto
      with "1.IH" [OF False refl Some] False Some show ?thesis by (simp add: Let_def)
    qed
  qed
qed

lemma fold_err_guard:
  assumes "\<And>x acc. f x acc = (if ok x then Inr (g x acc) else Inl e)"
  shows "fold_err f xs acc = (if list_all ok xs then Inr (fold g xs acc) else Inl e)"
  by (induction xs arbitrary: acc) (simp_all add: assms)

lemma schema_response_step_frames_eq:
  "schema_response_step_frames frames path method operation entry acc =
     (if (case resp_schema (snd entry) of
            None \<Rightarrow> True
          | Some schema \<Rightarrow> length (items_chain schema) \<le> frames)
      then Inr (schema_response_step path method operation entry acc)
      else Inl RangeError)"
  by (cases acc)
     (simp add: schema_response_step_frames_def schema_response_step_def
        indexSchemaProperties_frames_eq Let_def split: option.split)

lemma schema_method_step_frames_eq:
  "schema_method_step_frames frames path pathItem method acc =
     (if (case pathItem_at pathItem method of
            None \<Rightarrow> True
          | Some operation \<Rightarrow>
              (case op_responses operation of
                 None \<Rightarrow> True
               | Some rs \<Rightarrow>
                   list_all (\<lambda>response.
                     case resp_schema (snd response) of
                       None \<Rightarrow> True
                     | Some schema \<Rightarrow> length (items_chain schema) \<le> frames) rs))
      then Inr (schema_method_step path pathItem method acc)
      else Inl RangeError)"
  by (simp add: schema_method_step_frames_def schema_method_step_def
        fold_err_guard [OF schema_response_step_frames_eq] split: option.split)

lemma schema_path_step_frames_eq:
  "schema_path_step_frames frames entry acc =
     (if list_all (\<lambda>method.
           case pathItem_at (snd entry) method of
             None \<Rightarrow> True
           | Some operation \<Rightarrow>
               (case op_responses operation of
                  None \<Rightarrow> True
                | Some rs \<Rightarrow>
                    list_all (\<lambda>response.
                      case resp_schema (snd response) of
                        None \<Rightarrow> True
                      | Some schema \<Rightarrow> length (items_chain schema) \<le> frames) rs)) methods
      then Inr (schema_path_step entry acc)
      else Inl RangeError)"
  unfolding schema_path_step_frames_def schema_path_step_def
  by (rule fold_err_guard [OF schema_method_step_frames_eq])

lemma buildSchemaIndex_frames_eq:
  "buildSchemaIndex_frames frames spec =
     (if stack_suffices frames spec then Inr (buildSchemaIndex spec) else Inl RangeError)"
proof -
  have "fold_err (schema_path_step_frames frames) (spec_paths spec) ([], []) =
      (if stack_suffices frames spec then Inr (fold schema_path_step (spec_paths spec) ([], []))
       else Inl RangeError)"
    unfolding stack_suffices_def
    by (rule fold_err_guard [OF schema_path_step_frames_eq])
  then show ?thesis
    by (simp add: buildSchemaIndex_frames_def buildSchemaIndex_def split: prod.split)
qed



lemma load_frames_enough:
  "stack_suffices frames s \<Longrightarrow>
     load_frames frames (Inr (Some s)) loader =
       (loader\<lparr>ld_spec := Some s,
               ld_endpointIndex := Some (buildEndpointIndex s),
               ld_schemaIndex := Some (buildSchemaIndex s),
               ld_fulltextIndex := Some (buildFulltextIndex s)\<rparr>, None)"
  by (simp add: load_frames_def buildIndexes_frames_def buildSchemaIndex_frames_eq)

lemma load_frames_is_load:
  "stack_suffices frames s \<Longrightarrow>
     load_frames frames (Inr (Some s)) loader = load (Inr (Some s)) loader"
  by (simp add: load_frames_enough load_def buildIndexes_def)










subsection \<open>Substrings\<close>

lemma str_includes_sublist: "str_includes s t \<longleftrightarrow> sublist t s"
  by (induction s) (auto simp: sublist_Cons_right)

subsection \<open>Endpoint search\<close>

lemma search_by_operationId_comprehension:
  "search_by_operationId index oid =
     [endpoint_of (loc_path loc) (loc_method loc) operation.
        (opId, loc) \<leftarrow> ei_operationIds index,
        sublist (toLowerCase oid) (toLowerCase opId),
        operation \<leftarrow> option_list (lookup_operation index (loc_path loc) (loc_method loc))]"
proof -
  have "\<And>xs. concat (map (\<lambda>(opId, location).
           if str_includes (toLowerCase opId) (toLowerCase oid)
           then (case lookup_operation index (loc_path location) (loc_method location) of
                   None \<Rightarrow> []
                 | Some operation \<Rightarrow>
                     [endpoint_of (loc_path location) (loc_method location) operation])
           else []) xs) =
     [endpoint_of (loc_path loc) (loc_method loc) operation.
        (opId, loc) \<leftarrow> xs,
        sublist (toLowerCase oid) (toLowerCase opId),
        operation \<leftarrow> option_list (lookup_operation index (loc_path loc) (loc_method loc))]"
    subgoal for xs
      by (induction xs) (auto simp: str_includes_sublist option_list_def split: option.split)
    done
  then show ?thesis by (simp add: search_by_operationId_def)
qed

text \<open>
  C4. When \<open>operationId\<close> is given (a string that is not empty), the result of
  \<open>searchEndpoints\<close> is made from the \<open>operationIds\<close> index alone: the entries whose
  identifier contains the given one as a substring, letter case ignored, each resolved
  through \<open>paths\<close>, cut to the limit. The path, method and tag filters given with it change
  nothing.
\<close>

theorem searchEndpoints_operationId_only:
  assumes "oid \<noteq> []"
  shows "searchEndpoints loader
           \<lparr>esp_path = p, esp_method = m, esp_operationId = Some oid, esp_tag = t,
            esp_limit = l\<rparr>
         = (case getEndpointIndex loader of
              Inl e \<Rightarrow> Inl e
            | Inr index \<Rightarrow>
                Inr (js_slice
                  [endpoint_of (loc_path loc) (loc_method loc) operation.
                     (opId, loc) \<leftarrow> ei_operationIds index,
                     sublist (toLowerCase oid) (toLowerCase opId),
                     operation \<leftarrow>
                       option_list (lookup_operation index (loc_path loc) (loc_method loc))]
                  0 (case l of None \<Rightarrow> 10 | Some k \<Rightarrow> k)))
       \<and> searchEndpoints loader
           \<lparr>esp_path = p, esp_method = m, esp_operationId = Some oid, esp_tag = t,
            esp_limit = l\<rparr>
         = searchEndpoints loader
           \<lparr>esp_path = p', esp_method = m', esp_operationId = Some oid, esp_tag = t',
            esp_limit = l\<rparr>"
  using assms
  by (simp add: searchEndpoints_def truthy_def render_def search_by_operationId_comprehension
        split: sum.split)

theorem searchEndpoints_operationId_only_witness:
  "''FILES'' \<noteq> []
   \<and> searchEndpoints example_loader
        \<lparr>esp_path = Some ''/nodes'', esp_method = Some ''POST'',
         esp_operationId = Some ''FILES'', esp_tag = Some ''zzz'', esp_limit = None\<rparr>
      = searchEndpoints example_loader
        \<lparr>esp_path = None, esp_method = None,
         esp_operationId = Some ''FILES'', esp_tag = None, esp_limit = None\<rparr>
   \<and> searchEndpoints example_loader
        \<lparr>esp_path = None, esp_method = None,
         esp_operationId = Some ''FILES'', esp_tag = None, esp_limit = None\<rparr>
      = Inr [endpoint_of ''/files/'' ''GET'' files_list_op]
   \<and> searchEndpoints example_loader
        \<lparr>esp_path = Some ''/nodes'', esp_method = Some ''POST'',
         esp_operationId = None, esp_tag = Some ''zzz'', esp_limit = None\<rparr>
      = Inr []"
proof -
  have ne: "''FILES'' \<noteq> []" by simp
  have "searchEndpoints example_loader
        \<lparr>esp_path = None, esp_method = None,
         esp_operationId = Some ''FILES'', esp_tag = None, esp_limit = None\<rparr>
      = Inr [endpoint_of ''/files/'' ''GET'' files_list_op]"
    by code_simp
  moreover have "searchEndpoints example_loader
        \<lparr>esp_path = Some ''/nodes'', esp_method = Some ''POST'',
         esp_operationId = None, esp_tag = Some ''zzz'', esp_limit = None\<rparr>
      = Inr []"
    by code_simp
  ultimately show ?thesis
    using searchEndpoints_operationId_only [OF ne, of example_loader "Some ''/nodes''"
        "Some ''POST''" "Some ''zzz''" None None None None, THEN conjunct2]
    by simp
qed

subsection \<open>Fulltext search: the empty query\<close>

lemma short_pieces_no_tokens:
  "\<forall>w \<in> set (split_ws (replace_non_alnum (toLowerCase q))). length w < 3 \<Longrightarrow> tokenize q = []"
  by (auto simp: tokenize_def filter_empty_conv)

text \<open>
  C6. On a loaded specification, \<open>fulltextSearch\<close> returns the empty list, and throws
  nothing, for every query whose tokenization is empty; the empty query, a query of white
  space only, and a query whose pieces are all shorter than 3 characters are such queries.
\<close>

theorem fulltextSearch_empty_query:
  "(tokenize q = [] \<longrightarrow>
      fulltextSearch (fst (load (Inr (Some s)) loader)) \<lparr>fsp_query = q, fsp_limit = l\<rparr> = Inr [])
   \<and> (q = [] \<longrightarrow> tokenize q = [])
   \<and> ((\<forall>c \<in> set q. is_space c) \<longrightarrow> tokenize q = [])
   \<and> ((\<forall>w \<in> set (split_ws (replace_non_alnum (toLowerCase q))). length w < 3)
        \<longrightarrow> tokenize q = [])"
proof -
  have "tokenize [] = []" by code_simp
  moreover have "getFulltextIndex (fst (load (Inr (Some s)) loader)) = Inr (buildFulltextIndex s)"
    by (simp add: load_def buildIndexes_def getFulltextIndex_def)
  ultimately show ?thesis
    using tokenize_spaces [of q] short_pieces_no_tokens [of q]
    by (auto simp: fulltextSearch_def)
qed

theorem fulltextSearch_empty_query_witness:
  "fulltextSearch example_loader \<lparr>fsp_query = ''a is to'', fsp_limit = None\<rparr> = Inr []
   \<and> fulltextSearch example_loader \<lparr>fsp_query = ''   '', fsp_limit = None\<rparr> = Inr []
   \<and> fulltextSearch example_loader \<lparr>fsp_query = [], fsp_limit = None\<rparr> = Inr []"
proof -
  have short: "\<forall>w \<in> set (split_ws (replace_non_alnum (toLowerCase ''a is to''))). length w < 3"
    by code_simp
  have sp: "\<forall>c \<in> set ''   ''. is_space c" by (simp add: is_space_def)
  show ?thesis
    unfolding example_loader_def
    using short sp
      fulltextSearch_empty_query [of "''a is to''" example_spec new_loader None]
      fulltextSearch_empty_query [of "''   ''" example_spec new_loader None]
      fulltextSearch_empty_query [of "[]" example_spec new_loader None]
    by blast
qed

subsection \<open>Schema search: removal of duplicates\<close>

text \<open>
  C3 at a failing input. The search for the schema name "x" collects two occurrences with
  different paths, \<open>/a\<close> and \<open>/a:GET\<close>; both render to the key \<open>/a:GET:GET:X\<close>, and
  \<open>searchSchemas\<close> returns the first one only.
\<close>

theorem removeDuplicates_colon_collision:
  "collect_matching ''x'' (si_byName (buildSchemaIndex colon_spec)) =
     [\<lparr>sr_schemaName = Some ''GET:X'', sr_path = ''/a'', sr_method = ''GET'',
       sr_schema = empty_schema\<rparr>,
      \<lparr>sr_schemaName = Some ''X'', sr_path = ''/a:GET'', sr_method = ''GET'',
       sr_schema = empty_schema\<rparr>]
   \<and> searchSchemas colon_loader
       \<lparr>ssp_schemaName = Some ''x'', ssp_property = None, ssp_path = None, ssp_method = None\<rparr> =
     Inr [\<lparr>sr_schemaName = Some ''GET:X'', sr_path = ''/a'', sr_method = ''GET'',
            sr_schema = empty_schema\<rparr>]"
  by code_simp

subsection \<open>Letter case of the query texts\<close>


subsection \<open>Fulltext search: a match in a parameter only\<close>

lemma example_fulltext_index:
  "buildFulltextIndex example_spec =
     \<lparr>fi_words =
        [(''list'', [''GET:/files/'', ''GET:/nodes/'']),
         (''all'', [''GET:/files/'', ''GET:/nodes/'']),
         (''files'', [''GET:/files/'']), (''returns'', [''GET:/files/'']),
         (''the'', [''GET:/files/'']), (''system'', [''GET:/files/'']),
         (''page'', [''GET:/files/'']), (''number'', [''GET:/files/'']),
         (''for'', [''GET:/files/'']), (''pagination'', [''GET:/files/'']),
         (''nodes'', [''GET:/nodes/''])],
      fi_documents =
        [(''GET:/files/'',
          \<lparr>doc_path = ''/files/'', doc_method = ''GET'',
           doc_content = ''List all files Returns a list of all files in the system Page number for pagination page'',
           doc_summary = Some ''List all files'',
           doc_description = Some ''Returns a list of all files in the system''\<rparr>),
         (''GET:/nodes/'',
          \<lparr>doc_path = ''/nodes/'', doc_method = ''GET'', doc_content = ''List all nodes'',
           doc_summary = Some ''List all nodes'', doc_description = None\<rparr>)]\<rparr>"
  by code_simp

lemma example_fields:
  "tokenize ''pagination'' = [''pagination'']"
  "\<not> field_includes (Some ''List all files'') ''pagination''"
  "\<not> field_includes (Some ''Returns a list of all files in the system'') ''pagination''"
  by code_simp+

text \<open>
  C10. In the example specification the token "pagination" occurs in the description of a
  parameter of \<open>GET /files/\<close> and nowhere else. The query "pagination" returns that
  document with the score \<open>ln 2\<close>, which is positive, and with no matched field: the token is
  part of the indexed content, and neither the summary nor the description contains it.
\<close>

theorem parameter_only_match:
  "fulltextSearch example_loader \<lparr>fsp_query = ''pagination'', fsp_limit = None\<rparr> =
     Inr [\<lparr>fr_path = ''/files/'', fr_method = ''GET'',
            fr_summary = Some ''List all files'',
            fr_description = Some ''Returns a list of all files in the system'',
            fr_score = Num (ln 2), fr_matchedFields = []\<rparr>]
   \<and> js_positive (Num (ln 2))
   \<and> ''pagination'' \<in> set (SwaggerLoader_tokenize ''Page number for pagination'')"
proof -
  have idx: "getFulltextIndex example_loader = Inr (buildFulltextIndex example_spec)"
    by (simp add: example_loader_def load_def buildIndexes_def getFulltextIndex_def)
  have "fulltextSearch example_loader \<lparr>fsp_query = ''pagination'', fsp_limit = None\<rparr> =
     Inr [\<lparr>fr_path = ''/files/'', fr_method = ''GET'',
            fr_summary = Some ''List all files'',
            fr_description = Some ''Returns a list of all files in the system'',
            fr_score = Num (ln 2), fr_matchedFields = []\<rparr>]"
    by (simp add: fulltextSearch_def idx example_fulltext_index example_fields
          score_token_step_def score_doc_step_def js_div_count_def js_log_def
          js_sort_def js_slice_def)
  moreover have "js_positive (Num (ln 2))" by (simp add: js_positive_def)
  moreover have "''pagination'' \<in> set (SwaggerLoader_tokenize ''Page number for pagination'')"
    by code_simp
  ultimately show ?thesis by simp
qed

subsection \<open>Queries that differ in letter case only\<close>


















subsection \<open>The fulltext index is well formed\<close>

lemma map_of_map_add:
  "map_of (map_add k v m) =
     (map_of m)(k \<mapsto> (case map_of m k of None \<Rightarrow> [v] | Some vs \<Rightarrow> set_add v vs))"
  by (simp add: map_add_def update_conv' split: option.split)

lemma set_add_props:
  "set_add x xs \<noteq> []" "distinct xs \<Longrightarrow> distinct (set_add x xs)"
  "set (set_add x xs) = insert x (set xs)"
  by (auto simp: set_add_def)

lemma words_ok_map_add:
  assumes "words_ok ws ds" and "d \<in> fst ` set ds"
  shows "words_ok (map_add t d ws) ds"
  unfolding words_ok_def
proof (intro allI impI)
  fix token docIds
  assume look: "map_of (map_add t d ws) token = Some docIds"
  show "docIds \<noteq> [] \<and> distinct docIds \<and> set docIds \<subseteq> fst ` set ds"
  proof (cases "token = t")
    case False
    with look have "map_of ws token = Some docIds" by (simp add: map_of_map_add)
    with assms(1) show ?thesis unfolding words_ok_def by blast
  next
    case True
    show ?thesis
    proof (cases "map_of ws t")
      case None
      with look True have "docIds = [d]" by (simp add: map_of_map_add)
      with assms(2) show ?thesis by simp
    next
      case (Some vs)
      with look True have eq: "docIds = set_add d vs" by (simp add: map_of_map_add)
      from Some assms(1) have "distinct vs \<and> set vs \<subseteq> fst ` set ds"
        unfolding words_ok_def by blast
      with assms(2) show ?thesis by (simp add: eq set_add_props)
    qed
  qed
qed

lemma words_ok_fold_map_add:
  "words_ok ws ds \<Longrightarrow> d \<in> fst ` set ds \<Longrightarrow>
     words_ok (fold (\<lambda>token. map_add token d) ts ws) ds"
  by (induction ts arbitrary: ws) (simp_all add: words_ok_map_add)

lemma words_ok_more_documents:
  "words_ok ws ds \<Longrightarrow> words_ok ws (AList.update k v ds)"
  unfolding words_ok_def dom_update by blast

lemma map_of_key: "k \<in> fst ` set al \<Longrightarrow> \<exists>v. map_of al k = Some v"
  by (induction al) auto

lemma fulltext_method_step_ok:
  assumes "fulltext_ok acc"
  shows "fulltext_ok (fulltext_method_step path pathItem method acc)"
proof (cases acc)
  case (Pair ws ds)
  with assms have ok: "words_ok ws ds" and dist: "distinct (map fst ds)"
    by (simp_all add: fulltext_ok_def)
  show ?thesis
  proof (cases "pathItem_at pathItem method")
    case None
    with Pair assms show ?thesis by (simp add: fulltext_method_step_def)
  next
    case (Some operation)
    define docId where "docId = toUpperCase method @ '':'' @ path"
    define doc where "doc =
      \<lparr>doc_path = path, doc_method = toUpperCase method,
       doc_content = join_space (contentParts operation),
       doc_summary = op_summary operation, doc_description = op_description operation\<rparr>"
    have "docId \<in> fst ` set (AList.update docId doc ds)" by (simp add: dom_update)
    with ok have "words_ok (fold (\<lambda>token. map_add token docId)
        (SwaggerLoader_tokenize (join_space (contentParts operation))) ws)
        (AList.update docId doc ds)"
      by (intro words_ok_fold_map_add words_ok_more_documents)
    moreover from dist have "distinct (map fst (AList.update docId doc ds))"
      by (rule distinct_update)
    ultimately show ?thesis
      using Pair Some
      by (simp add: fulltext_method_step_def fulltext_ok_def docId_def doc_def Let_def)
  qed
qed

lemma fulltext_methods_ok:
  "fulltext_ok acc \<Longrightarrow> fulltext_ok (fold (fulltext_method_step path pathItem) ms acc)"
  by (induction ms arbitrary: acc) (simp_all add: fulltext_method_step_ok)

lemma fulltext_paths_ok:
  "fulltext_ok acc \<Longrightarrow> fulltext_ok (fold fulltext_path_step ps acc)"
  by (induction ps arbitrary: acc) (simp_all add: fulltext_path_step_def fulltext_methods_ok)

lemma buildFulltextIndex_ok:
  "words_ok (fi_words (buildFulltextIndex s)) (fi_documents (buildFulltextIndex s))"
  "distinct (map fst (fi_documents (buildFulltextIndex s)))"
proof -
  have "fulltext_ok ([], [])" by (simp add: fulltext_ok_def words_ok_def)
  then have "fulltext_ok (fold fulltext_path_step (spec_paths s) ([], []))"
    by (rule fulltext_paths_ok)
  then show "words_ok (fi_words (buildFulltextIndex s)) (fi_documents (buildFulltextIndex s))"
    and "distinct (map fst (fi_documents (buildFulltextIndex s)))"
    by (cases "fold fulltext_path_step (spec_paths s) ([], [])";
        simp add: buildFulltextIndex_def fulltext_ok_def)+
qed

lemma document_frequency_bounds:
  assumes "words_ok ws ds" and "map_of ws token = Some docIds"
  shows "1 \<le> length docIds" and "length docIds \<le> length ds"
proof -
  from assms have "docIds \<noteq> [] \<and> distinct docIds \<and> set docIds \<subseteq> fst ` set ds"
    unfolding words_ok_def by blast
  then have ne: "docIds \<noteq> []" and dist: "distinct docIds"
    and sub: "set docIds \<subseteq> fst ` set ds"
    by simp_all
  from ne show "1 \<le> length docIds" by (cases docIds) simp_all
  have "length docIds = card (set docIds)" using dist by (simp add: distinct_card)
  also have "\<dots> \<le> card (fst ` set ds)" using sub by (simp add: card_mono)
  also have "\<dots> \<le> card (set ds)" by (simp add: card_image_le)
  also have "\<dots> \<le> length ds" by (rule card_length)
  finally show "length docIds \<le> length ds" .
qed

subsection \<open>Scores stay finite\<close>

lemma set_update_subset: "set (AList.update k v al) \<subseteq> insert (k, v) (set al)"
  by (induction al) auto

lemma score_finite:
  assumes "queryLength \<noteq> 0" and "df \<noteq> 0" and "n \<noteq> 0" and "isFinite old"
  shows "isFinite (js_add old (js_mul (js_div_count 1 queryLength) (js_log (js_div_count n df))))"
proof -
  from assms(4) obtain r where "old = Num r" by (cases old) (simp_all add: isFinite_def)
  moreover from assms(2,3) have "real n / real df > 0" by simp
  ultimately show ?thesis
    using assms(1,2) by (simp add: js_div_count_def js_log_def isFinite_def)
qed

lemma scores_ok_update:
  assumes "scores_ok ds scores" and "isFinite (sd_score sd)" and "k \<in> fst ` set ds"
  shows "scores_ok ds (AList.update k sd scores)"
proof -
  have "isFinite (sd_score y) \<and> x \<in> fst ` set ds"
    if "(x, y) \<in> set (AList.update k sd scores)" for x y
  proof -
    from that set_update_subset [of k sd scores]
    have "(x, y) = (k, sd) \<or> (x, y) \<in> set scores" by blast
    then show ?thesis
    proof
      assume "(x, y) = (k, sd)"
      with assms(2,3) show ?thesis by simp
    next
      assume "(x, y) \<in> set scores"
      with assms(1) show ?thesis unfolding scores_ok_def by blast
    qed
  qed
  then show ?thesis unfolding scores_ok_def by blast
qed

lemma scores_ok_lookup:
  assumes "scores_ok ds scores" and "map_of scores k = Some sd"
  shows "isFinite (sd_score sd)"
proof -
  from assms(2) have "(k, sd) \<in> set scores" by (rule map_of_SomeD)
  with assms(1) show ?thesis unfolding scores_ok_def by blast
qed

lemma score_doc_step_result:
  assumes "map_of (fi_documents index) docId = Some doc"
  shows "\<exists>sd'. score_doc_step index queryLength token docIds docId scores =
             Inr (AList.update docId sd' scores)
           \<and> sd_score sd' = js_add
                (sd_score (case map_of scores docId of
                             None \<Rightarrow> \<lparr>sd_score = Num 0, sd_matchedFields = []\<rparr>
                           | Some sd \<Rightarrow> sd))
                (js_mul (js_div_count 1 queryLength)
                   (js_log (js_div_count (length (fi_documents index)) (length docIds))))"
  unfolding score_doc_step_def Let_def assms option.case
  by (rule exI, rule conjI, rule refl) simp

lemma score_doc_step_ok:
  assumes "scores_ok (fi_documents index) scores"
    and "docId \<in> fst ` set (fi_documents index)"
    and "docIds \<noteq> []" and "queryLength \<noteq> 0"
  shows "\<exists>scores'. score_doc_step index queryLength token docIds docId scores = Inr scores'
           \<and> scores_ok (fi_documents index) scores'"
proof -
  from map_of_key [OF assms(2)] obtain doc
    where doc: "map_of (fi_documents index) docId = Some doc" ..
  then have n: "length (fi_documents index) \<noteq> 0" by (cases "fi_documents index") simp_all
  define old where "old =
    sd_score (case map_of scores docId of
       None \<Rightarrow> \<lparr>sd_score = Num 0, sd_matchedFields = []\<rparr>
     | Some sd \<Rightarrow> sd)"
  have "isFinite old"
  proof (cases "map_of scores docId")
    case None
    then show ?thesis by (simp add: old_def isFinite_def)
  next
    case (Some sd)
    with scores_ok_lookup [OF assms(1) Some] show ?thesis by (simp add: old_def)
  qed
  then have fin: "isFinite (js_add old
      (js_mul (js_div_count 1 queryLength)
         (js_log (js_div_count (length (fi_documents index)) (length docIds)))))"
    using assms(3,4) n score_finite [of queryLength "length docIds" "length (fi_documents index)" old]
    by simp
  from score_doc_step_result [OF doc, of queryLength token docIds scores]
  obtain sd' where step: "score_doc_step index queryLength token docIds docId scores =
      Inr (AList.update docId sd' scores)"
    and sc: "sd_score sd' = js_add old
            (js_mul (js_div_count 1 queryLength)
               (js_log (js_div_count (length (fi_documents index)) (length docIds))))"
    unfolding old_def by (elim exE conjE)
  from fin sc have "isFinite (sd_score sd')" by simp
  with assms(1) have "scores_ok (fi_documents index) (AList.update docId sd' scores)"
    using assms(2) by (rule scores_ok_update)
  with step show ?thesis by (intro exI conjI)
qed

lemma score_docs_ok:
  assumes "set ds \<subseteq> fst ` set (fi_documents index)"
    and "set ds \<subseteq> set docIds" and "queryLength \<noteq> 0"
    and "scores_ok (fi_documents index) scores"
  shows "\<exists>scores'. fold_err (score_doc_step index queryLength token docIds) ds scores = Inr scores'
           \<and> scores_ok (fi_documents index) scores'"
  using assms
proof (induction ds arbitrary: scores)
  case Nil
  then show ?case by simp
next
  case (Cons d ds)
  from Cons.prems have "d \<in> fst ` set (fi_documents index)" and "docIds \<noteq> []" by auto
  with Cons.prems obtain s1 where
    s1: "score_doc_step index queryLength token docIds d scores = Inr s1"
    and ok1: "scores_ok (fi_documents index) s1"
    using score_doc_step_ok by blast
  from Cons.prems have "set ds \<subseteq> fst ` set (fi_documents index)" "set ds \<subseteq> set docIds"
    by auto
  with Cons.IH [OF _ _ Cons.prems(3) ok1] s1 show ?case by simp
qed

lemma score_token_step_ok:
  assumes "words_ok (fi_words index) (fi_documents index)" and "queryLength \<noteq> 0"
    and "scores_ok (fi_documents index) scores"
  shows "\<exists>scores'. score_token_step index queryLength token scores = Inr scores'
           \<and> scores_ok (fi_documents index) scores'"
proof (cases "map_of (fi_words index) token")
  case None
  with assms(3) show ?thesis by (simp add: score_token_step_def)
next
  case (Some docIds)
  with assms(1) have "set docIds \<subseteq> fst ` set (fi_documents index)"
    unfolding words_ok_def by blast
  from score_docs_ok [OF this subset_refl assms(2,3)] Some
  show ?thesis by (simp add: score_token_step_def)
qed

lemma score_tokens_ok:
  assumes "words_ok (fi_words index) (fi_documents index)" and "queryLength \<noteq> 0"
    and "scores_ok (fi_documents index) scores"
  shows "\<exists>scores'. fold_err (score_token_step index queryLength) tokens scores = Inr scores'
           \<and> scores_ok (fi_documents index) scores'"
  using assms(3)
proof (induction tokens arbitrary: scores)
  case Nil
  then show ?case by simp
next
  case (Cons t ts)
  from score_token_step_ok [OF assms(1,2) Cons.prems] obtain s1 where
    "score_token_step index queryLength t scores = Inr s1" "scores_ok (fi_documents index) s1"
    by blast
  with Cons.IH [of s1] show ?case by simp
qed

lemma collect_results_ok:
  assumes "scores_ok (fi_documents index) scores"
  shows "\<exists>rs. collect_results index scores = Inr rs \<and> (\<forall>r \<in> set rs. isFinite (fr_score r))"
  using assms
proof (induction scores)
  case Nil
  then show ?case by simp
next
  case (Cons entry rest)
  obtain docId scoreData where entry: "entry = (docId, scoreData)" by (cases entry)
  from Cons.prems entry have fin: "isFinite (sd_score scoreData)"
    and key: "docId \<in> fst ` set (fi_documents index)"
    and rest: "scores_ok (fi_documents index) rest"
    by (auto simp: scores_ok_def)
  from map_of_key [OF key] obtain doc
    where "map_of (fi_documents index) docId = Some doc" ..
  moreover from Cons.IH [OF rest] obtain rs where
    "collect_results index rest = Inr rs" "\<forall>r \<in> set rs. isFinite (fr_score r)" by blast
  ultimately show ?case using entry fin by simp
qed

lemma set_insert_sorted: "set (insert_sorted after x ys) = insert x (set ys)"
  by (induction ys) auto

lemma set_js_sort: "set (js_sort after xs) = set xs"
proof -
  have "set (foldl (\<lambda>acc x. insert_sorted after x acc) acc xs) = set acc \<union> set xs" for acc
    by (induction xs arbitrary: acc) (auto simp: set_insert_sorted)
  then show ?thesis by (simp add: js_sort_def)
qed

lemma set_js_slice: "set (js_slice xs a b) \<subseteq> set xs"
proof -
  have "set (take n (drop k xs)) \<subseteq> set xs" for n k
    using set_take_subset [of n "drop k xs"] set_drop_subset [of k xs] by (rule order_trans)
  then show ?thesis by (simp add: js_slice_def Let_def)
qed

lemma fulltextSearch_finite:
  assumes "getFulltextIndex loader = Inr index"
    and "words_ok (fi_words index) (fi_documents index)"
  shows "\<exists>rs. fulltextSearch loader \<lparr>fsp_query = q, fsp_limit = l\<rparr> = Inr rs
           \<and> (\<forall>r \<in> set rs. isFinite (fr_score r))"
proof (cases "tokenize q = []")
  case True
  with assms(1) show ?thesis by (simp add: fulltextSearch_def)
next
  case False
  then have len: "length (tokenize q) \<noteq> 0" by simp
  have "scores_ok (fi_documents index) []" by (simp add: scores_ok_def)
  from score_tokens_ok [OF assms(2) len this] obtain scores where
    sc: "fold_err (score_token_step index (length (tokenize q))) (tokenize q) [] = Inr scores"
    and ok: "scores_ok (fi_documents index) scores" by blast
  from collect_results_ok [OF ok] obtain rs where
    rs: "collect_results index scores = Inr rs" and fin: "\<forall>r \<in> set rs. isFinite (fr_score r)"
    by blast
  have "fulltextSearch loader \<lparr>fsp_query = q, fsp_limit = l\<rparr> =
      Inr (js_slice (js_sort score_after rs) 0 (case l of None \<Rightarrow> 10 | Some k \<Rightarrow> k))"
    using assms(1) False sc rs by (simp add: fulltextSearch_def)
  moreover have "\<forall>r \<in> set (js_slice (js_sort score_after rs) 0
      (case l of None \<Rightarrow> 10 | Some k \<Rightarrow> k)). isFinite (fr_score r)"
    using fin set_js_slice [of "js_sort score_after rs"] set_js_sort [of score_after rs]
    by blast
  ultimately show ?thesis by blast
qed

text \<open>
  C2. For every loaded specification, query and limit, \<open>fulltextSearch\<close> returns a list,
  throws nothing, and every score in the list is a finite number. The index built from a
  specification never maps a token to an empty set of documents: every token that is looked
  up has a document frequency of at least 1, and the number of documents is at least that
  frequency.
\<close>

theorem fulltextSearch_scores_finite:
  "(\<exists>rs. fulltextSearch (fst (load (Inr (Some s)) loader)) \<lparr>fsp_query = q, fsp_limit = l\<rparr>
            = Inr rs
          \<and> (\<forall>r \<in> set rs. isFinite (fr_score r)))
   \<and> (\<forall>token docIds. map_of (fi_words (buildFulltextIndex s)) token = Some docIds \<longrightarrow>
          1 \<le> length docIds \<and> length docIds \<le> length (fi_documents (buildFulltextIndex s)))"
proof -
  have "getFulltextIndex (fst (load (Inr (Some s)) loader)) = Inr (buildFulltextIndex s)"
    by (simp add: load_def buildIndexes_def getFulltextIndex_def)
  from fulltextSearch_finite [OF this buildFulltextIndex_ok(1)]
    document_frequency_bounds [OF buildFulltextIndex_ok(1)]
  show ?thesis by blast
qed

lemma mixed_query_fields:
  "tokenize ''list files xyznonexistent'' = [''list'', ''files'', ''xyznonexistent'']"
  "field_includes (Some ''List all files'') ''list''"
  "field_includes (Some ''List all files'') ''files''"
  "field_includes (Some ''Returns a list of all files in the system'') ''list''"
  "field_includes (Some ''Returns a list of all files in the system'') ''files''"
  "field_includes (Some ''List all nodes'') ''list''"
  "\<not> field_includes None ''list''"
  by code_simp+

lemma mixed_query_result:
  "fulltextSearch example_loader \<lparr>fsp_query = ''list files xyznonexistent'', fsp_limit = None\<rparr> =
     Inr [\<lparr>fr_path = ''/files/'', fr_method = ''GET'',
            fr_summary = Some ''List all files'',
            fr_description = Some ''Returns a list of all files in the system'',
            fr_score = Num (ln 2 / 3), fr_matchedFields = [''summary'', ''description'']\<rparr>,
          \<lparr>fr_path = ''/nodes/'', fr_method = ''GET'',
            fr_summary = Some ''List all nodes'',
            fr_description = None,
            fr_score = Num 0, fr_matchedFields = [''summary'']\<rparr>]"
proof -
  have idx: "getFulltextIndex example_loader = Inr (buildFulltextIndex example_spec)"
    by (simp add: example_loader_def load_def buildIndexes_def getFulltextIndex_def)
  show ?thesis
    by (simp add: fulltextSearch_def idx example_fulltext_index mixed_query_fields
          score_token_step_def score_doc_step_def js_div_count_def js_log_def
          js_sort_def js_slice_def set_add_def score_after_def js_sub_def js_neg_def
          js_positive_def)
qed

theorem fulltextSearch_scores_finite_witness:
  "fulltextSearch example_loader \<lparr>fsp_query = ''list files xyznonexistent'', fsp_limit = None\<rparr> =
     Inr [\<lparr>fr_path = ''/files/'', fr_method = ''GET'',
            fr_summary = Some ''List all files'',
            fr_description = Some ''Returns a list of all files in the system'',
            fr_score = Num (ln 2 / 3), fr_matchedFields = [''summary'', ''description'']\<rparr>,
          \<lparr>fr_path = ''/nodes/'', fr_method = ''GET'',
            fr_summary = Some ''List all nodes'',
            fr_description = None,
            fr_score = Num 0, fr_matchedFields = [''summary'']\<rparr>]
   \<and> isFinite (Num (ln 2 / 3)) \<and> isFinite (Num 0)
   \<and> map_of (fi_words (buildFulltextIndex example_spec)) ''files'' = Some [''GET:/files/'']
   \<and> 1 \<le> length [''GET:/files/'']
   \<and> length [''GET:/files/''] \<le> length (fi_documents (buildFulltextIndex example_spec))"
proof -
  have look: "map_of (fi_words (buildFulltextIndex example_spec)) ''files'' = Some [''GET:/files/'']"
    by (simp add: example_fulltext_index)
  note inst = fulltextSearch_scores_finite [of example_spec new_loader
      "''list files xyznonexistent''" None]
  from inst [THEN conjunct2] look
  have df: "1 \<le> length [''GET:/files/''] \<and>
      length [''GET:/files/''] \<le> length (fi_documents (buildFulltextIndex example_spec))"
    by blast
  from inst [THEN conjunct1] mixed_query_result
  have fin: "\<forall>r \<in> set [\<lparr>fr_path = ''/files/'', fr_method = ''GET'',
            fr_summary = Some ''List all files'',
            fr_description = Some ''Returns a list of all files in the system'',
            fr_score = Num (ln 2 / 3), fr_matchedFields = [''summary'', ''description'']\<rparr>,
          \<lparr>fr_path = ''/nodes/'', fr_method = ''GET'',
            fr_summary = Some ''List all nodes'',
            fr_description = None,
            fr_score = Num 0, fr_matchedFields = [''summary'']\<rparr>]. isFinite (fr_score r)"
    unfolding example_loader_def by simp
  from fin have "isFinite (Num (ln 2 / 3))" and "isFinite (Num 0)" by simp_all
  with mixed_query_result look df show ?thesis by simp
qed

subsection \<open>Sorting\<close>

lemma mset_insert_sorted: "mset (insert_sorted after x ys) = add_mset x (mset ys)"
  by (induction ys) simp_all

lemma mset_js_sort: "mset (js_sort after xs) = mset xs"
proof -
  have "mset (foldl (\<lambda>acc x. insert_sorted after x acc) acc xs) = mset acc + mset xs" for acc
    by (induction xs arbitrary: acc) (simp_all add: mset_insert_sorted)
  then show ?thesis by (simp add: js_sort_def)
qed

lemma sorted_insert_sorted:
  assumes asym: "\<forall>a b. after a b \<longrightarrow> \<not> after b a"
    and trans: "\<forall>a b c. \<not> after a b \<and> \<not> after b c \<longrightarrow> \<not> after a c"
    and "sorted_wrt (\<lambda>a b. \<not> after a b) ys"
  shows "sorted_wrt (\<lambda>a b. \<not> after a b) (insert_sorted after x ys)"
  using assms(3)
proof (induction ys)
  case Nil
  then show ?case by simp
next
  case (Cons y ys)
  show ?case
  proof (cases "after y x")
    case True
    with asym have xy: "\<not> after x y" by blast
    have "\<not> after x z" if "z \<in> set ys" for z
    proof -
      from Cons.prems that have "\<not> after y z" by simp
      with xy trans show ?thesis by blast
    qed
    with True xy Cons.prems show ?thesis by simp
  next
    case False
    have "set (insert_sorted after x ys) = insert x (set ys)"
      using mset_insert_sorted [of after x ys] by (metis set_mset_mset set_mset_add_mset_insert)
    with False Cons show ?thesis by simp
  qed
qed

lemma sorted_js_sort:
  assumes asym: "\<forall>a b. after a b \<longrightarrow> \<not> after b a"
    and trans: "\<forall>a b c. \<not> after a b \<and> \<not> after b c \<longrightarrow> \<not> after a c"
  shows "sorted_wrt (\<lambda>a b. \<not> after a b) (js_sort after xs)"
proof -
  have "sorted_wrt (\<lambda>a b. \<not> after a b) (foldl (\<lambda>acc x. insert_sorted after x acc) acc xs)"
    if "sorted_wrt (\<lambda>a b. \<not> after a b) acc" for acc
    using that
  proof (induction xs arbitrary: acc)
    case Nil
    then show ?case by simp
  next
    case (Cons x xs)
    from asym trans Cons.prems
    have "sorted_wrt (\<lambda>a b. \<not> after a b) (insert_sorted after x acc)"
      by (rule sorted_insert_sorted)
    then show ?case using Cons.IH by simp
  qed
  then show ?thesis by (simp add: js_sort_def)
qed

lemma js_slice_page:
  assumes "0 \<le> offset" and "0 \<le> limit"
  shows "js_slice xs offset (offset + limit) = take (nat limit) (drop (nat offset) xs)"
proof (cases "offset \<le> int (length xs)")
  case True
  with assms show ?thesis
    by (cases "offset + limit \<le> int (length xs)")
       (simp_all add: js_slice_def Let_def min_def nat_diff_distrib)
next
  case False
  with assms show ?thesis by (simp add: js_slice_def Let_def min_def)
qed

subsection \<open>The listing order\<close>

lemma consistent_zero:
  assumes "consistent lc" and "lc a b = 0"
  shows "lc b a = 0"
proof -
  from assms have "\<not> lc b a < 0" "\<not> lc b a > 0"
    unfolding consistent_def by (metis less_irrefl)+
  then show ?thesis by simp
qed

lemma list_compare_asym:
  assumes "consistent lc" and "list_compare lc a b > 0"
  shows "\<not> list_compare lc b a > 0"
proof (cases "lc (li_path a) (li_path b) = 0")
  case True
  with assms(2) have m: "lc (li_method a) (li_method b) > 0" by (simp add: list_compare_def)
  from consistent_zero [OF assms(1) True] have "lc (li_path b) (li_path a) = 0" .
  moreover from m assms(1) have "lc (li_method b) (li_method a) < 0"
    unfolding consistent_def by blast
  ultimately show ?thesis by (simp add: list_compare_def)
next
  case False
  with assms(2) have "lc (li_path a) (li_path b) > 0" by (simp add: list_compare_def)
  with assms(1) have "lc (li_path b) (li_path a) < 0" unfolding consistent_def by blast
  then show ?thesis by (simp add: list_compare_def)
qed

lemma list_compare_le_iff:
  "\<not> list_compare lc a b > 0 \<longleftrightarrow> path_then_method lc a b"
  by (auto simp: list_compare_def path_then_method_def)

lemma path_then_method_trans:
  assumes c: "consistent lc" and ab: "path_then_method lc a b" and bc: "path_then_method lc b c"
  shows "path_then_method lc a c"
proof -
  from c have tr: "\<And>x y z. lc x y \<le> 0 \<Longrightarrow> lc y z \<le> 0 \<Longrightarrow> lc x z \<le> 0"
    unfolding consistent_def by blast
  from c have sw: "\<And>x y. lc x y < 0 \<Longrightarrow> lc y x > 0"
    unfolding consistent_def by blast
  from ab bc have p: "lc (li_path a) (li_path b) \<le> 0" "lc (li_path b) (li_path c) \<le> 0"
    by (auto simp: path_then_method_def)
  then have ac: "lc (li_path a) (li_path c) \<le> 0" by (rule tr)
  show ?thesis
  proof (cases "lc (li_path a) (li_path c) < 0")
    case True
    then show ?thesis by (simp add: path_then_method_def)
  next
    case False
    with ac have z: "lc (li_path a) (li_path c) = 0" by simp
    then have z': "lc (li_path c) (li_path a) = 0" by (rule consistent_zero [OF c])
    have "lc (li_path a) (li_path b) = 0"
    proof (rule ccontr)
      assume "lc (li_path a) (li_path b) \<noteq> 0"
      with p(1) have "lc (li_path a) (li_path b) < 0" by simp
      then have "lc (li_path b) (li_path a) > 0" by (rule sw)
      moreover from p(2) z' have "lc (li_path b) (li_path a) \<le> 0"
        using tr [of "li_path b" "li_path c" "li_path a"] by simp
      ultimately show False by simp
    qed
    moreover have "lc (li_path b) (li_path c) = 0"
    proof (rule ccontr)
      assume "lc (li_path b) (li_path c) \<noteq> 0"
      with p(2) have "lc (li_path b) (li_path c) < 0" by simp
      then have "lc (li_path c) (li_path b) > 0" by (rule sw)
      moreover from p(1) z' have "lc (li_path c) (li_path b) \<le> 0"
        using tr [of "li_path c" "li_path a" "li_path b"] by simp
      ultimately show False by simp
    qed
    ultimately have "lc (li_method a) (li_method b) \<le> 0" "lc (li_method b) (li_method c) \<le> 0"
      using ab bc by (auto simp: path_then_method_def)
    then have "lc (li_method a) (li_method c) \<le> 0" by (rule tr)
    with z show ?thesis by (simp add: path_then_method_def)
  qed
qed

lemma sorted_listing:
  assumes "consistent lc"
  shows "sorted_wrt (path_then_method lc) (js_sort (\<lambda>a b. list_compare lc a b > 0) xs)"
proof -
  have "sorted_wrt (\<lambda>a b. \<not> list_compare lc a b > 0) (js_sort (\<lambda>a b. list_compare lc a b > 0) xs)"
  proof (rule sorted_js_sort)
    show "\<forall>a b. 0 < list_compare lc a b \<longrightarrow> \<not> 0 < list_compare lc b a"
      using assms list_compare_asym by blast
    show "\<forall>a b c. \<not> 0 < list_compare lc a b \<and> \<not> 0 < list_compare lc b c
            \<longrightarrow> \<not> 0 < list_compare lc a c"
      using path_then_method_trans [OF assms] unfolding list_compare_le_iff by blast
  qed
  then show ?thesis by (simp add: list_compare_le_iff [abs_def])
qed

lemma all_endpoints_comprehension:
  "all_endpoints index =
     [list_item path (toUpperCase method) operation.
        (path, ms) \<leftarrow> ei_paths index, (method, operation) \<leftarrow> ms]"
proof -
  have inner: "map (\<lambda>(method, operation).
         \<lparr>li_path = path, li_method = toUpperCase method,
          li_summary = op_summary operation,
          li_operationId = op_operationId operation,
          li_tags = op_tags operation\<rparr>) ms
       = [list_item path (toUpperCase method) operation. (method, operation) \<leftarrow> ms]"
    for path and ms :: "(string \<times> Operation) list"
    by (induction ms) (auto simp: list_item_def)
  show ?thesis
    unfolding all_endpoints_def inner
    by (induction "ei_paths index") auto
qed

lemma ba_index:
  "getEndpointIndex (fst (load (Inr (Some ba_spec)) new_loader)) =
     Inr \<lparr>ei_paths = [(''/b/'', [(''GET'', plain_operation)]),
                      (''/a/'', [(''GET'', plain_operation)])],
          ei_tags = [], ei_operationIds = []\<rparr>"
  by code_simp

lemma ba_listing:
  assumes "consistent lc" and "lc ''/a/'' ''/b/'' < 0"
  shows "listEndpoints lc (fst (load (Inr (Some ba_spec)) new_loader))
           \<lparr>lep_limit = None, lep_offset = None\<rparr>
         = Inr [list_item ''/a/'' ''GET'' plain_operation,
                list_item ''/b/'' ''GET'' plain_operation]"
proof -
  from assms have "lc ''/b/'' ''/a/'' > 0" unfolding consistent_def by blast
  moreover have "toUpperCase ''GET'' = ''GET''" by code_simp
  ultimately show ?thesis
    by (simp add: listEndpoints_def ba_index all_endpoints_def js_sort_def list_compare_def
          js_slice_def list_item_def)
qed

subsection \<open>Comparison by code units is consistent\<close>

lemma codeunit_compare_swap: "(codeunit_compare a b > 0) = (codeunit_compare b a < 0)"
  by (induction a b rule: codeunit_compare.induct) auto

lemma codeunit_compare_trans:
  "codeunit_compare a b \<le> 0 \<Longrightarrow> codeunit_compare b c \<le> 0 \<Longrightarrow> codeunit_compare a c \<le> 0"
proof (induction a b arbitrary: c rule: codeunit_compare.induct)
  case 1
  then show ?case by simp
next
  case (2 y ys)
  then show ?case by (cases c) simp_all
next
  case (3 x xs)
  then show ?case by simp
next
  case (4 x xs y ys)
  show ?case
  proof (cases c)
    case Nil
    with "4.prems" show ?thesis by simp
  next
    case (Cons z zs)
    show ?thesis
    proof (cases "(of_char x :: nat) < of_char y")
      case True
      with "4.prems"(2) Cons show ?thesis by (auto split: if_splits)
    next
      case False
      with "4.prems"(1) have xy: "(of_char x :: nat) = of_char y"
        and rest: "codeunit_compare xs ys \<le> 0"
        by (auto split: if_splits)
      show ?thesis
      proof (cases "(of_char y :: nat) < of_char z")
        case True
        with xy Cons show ?thesis by simp
      next
        case yz: False
        with "4.prems"(2) Cons have "(of_char y :: nat) = of_char z"
          and "codeunit_compare ys zs \<le> 0"
          by (auto split: if_splits)
        with "4.IH" [OF False _ rest, of zs] xy Cons show ?thesis by simp
      qed
    qed
  qed
qed

lemma consistent_codeunit_compare: "consistent codeunit_compare"
  unfolding consistent_def using codeunit_compare_swap codeunit_compare_trans by blast

text \<open>
  C7. With \<open>localeCompare\<close> any consistent comparison, \<open>listEndpoints\<close> returns a slice
  of a list that holds every (path, method) pair of the endpoint index once, with its
  summary, operationId and tags, sorted by path and then by method; for an offset and a
  limit that are not negative the slice drops \<open>offset\<close> entries and keeps at most \<open>limit\<close>
  of the rest, and the defaults are 50 for the limit and 0 for the offset. On the
  specification with \<open>/b/ GET\<close> and \<open>/a/ GET\<close>, \<open>/a/\<close> is listed before \<open>/b/\<close> whenever the
  comparison puts the string \<open>/a/\<close> before \<open>/b/\<close>.
\<close>

theorem listEndpoints_sorted_page:
  assumes "consistent lc" and "getEndpointIndex loader = Inr index"
  shows "(\<exists>sorted.
            listEndpoints lc loader \<lparr>lep_limit = Some limit, lep_offset = Some offset\<rparr>
              = Inr (js_slice sorted offset (offset + limit))
            \<and> mset sorted =
                mset [list_item path (toUpperCase method) operation.
                        (path, ms) \<leftarrow> ei_paths index, (method, operation) \<leftarrow> ms]
            \<and> sorted_wrt (path_then_method lc) sorted
            \<and> (0 \<le> offset \<and> 0 \<le> limit \<longrightarrow>
                 js_slice sorted offset (offset + limit)
                   = take (nat limit) (drop (nat offset) sorted)))
         \<and> listEndpoints lc loader \<lparr>lep_limit = l, lep_offset = off\<rparr>
             = listEndpoints lc loader
                 \<lparr>lep_limit = Some (case l of None \<Rightarrow> 50 | Some k \<Rightarrow> k),
                  lep_offset = Some (case off of None \<Rightarrow> 0 | Some k \<Rightarrow> k)\<rparr>
         \<and> (lc ''/a/'' ''/b/'' < 0 \<longrightarrow>
              listEndpoints lc (fst (load (Inr (Some ba_spec)) new_loader))
                \<lparr>lep_limit = None, lep_offset = None\<rparr>
              = Inr [list_item ''/a/'' ''GET'' plain_operation,
                     list_item ''/b/'' ''GET'' plain_operation])"
proof -
  let ?sorted = "js_sort (\<lambda>a b. list_compare lc a b > 0) (all_endpoints index)"
  have "listEndpoints lc loader \<lparr>lep_limit = Some limit, lep_offset = Some offset\<rparr>
          = Inr (js_slice ?sorted offset (offset + limit))"
    using assms(2) by (simp add: listEndpoints_def Let_def)
  moreover have "mset ?sorted =
      mset [list_item path (toUpperCase method) operation.
              (path, ms) \<leftarrow> ei_paths index, (method, operation) \<leftarrow> ms]"
    by (simp only: mset_js_sort all_endpoints_comprehension)
  moreover have "sorted_wrt (path_then_method lc) ?sorted"
    using assms(1) by (rule sorted_listing)
  moreover have "0 \<le> offset \<and> 0 \<le> limit \<longrightarrow>
      js_slice ?sorted offset (offset + limit) = take (nat limit) (drop (nat offset) ?sorted)"
    using js_slice_page by blast
  ultimately have page: "\<exists>sorted.
            listEndpoints lc loader \<lparr>lep_limit = Some limit, lep_offset = Some offset\<rparr>
              = Inr (js_slice sorted offset (offset + limit))
            \<and> mset sorted =
                mset [list_item path (toUpperCase method) operation.
                        (path, ms) \<leftarrow> ei_paths index, (method, operation) \<leftarrow> ms]
            \<and> sorted_wrt (path_then_method lc) sorted
            \<and> (0 \<le> offset \<and> 0 \<le> limit \<longrightarrow>
                 js_slice sorted offset (offset + limit)
                   = take (nat limit) (drop (nat offset) sorted))"
    by (intro exI [of _ ?sorted] conjI)
  have defaults: "listEndpoints lc loader \<lparr>lep_limit = l, lep_offset = off\<rparr>
             = listEndpoints lc loader
                 \<lparr>lep_limit = Some (case l of None \<Rightarrow> 50 | Some k \<Rightarrow> k),
                  lep_offset = Some (case off of None \<Rightarrow> 0 | Some k \<Rightarrow> k)\<rparr>"
    by (cases "getEndpointIndex loader") (simp_all add: listEndpoints_def Let_def)
  have example: "lc ''/a/'' ''/b/'' < 0 \<longrightarrow>
           listEndpoints lc (fst (load (Inr (Some ba_spec)) new_loader))
             \<lparr>lep_limit = None, lep_offset = None\<rparr>
           = Inr [list_item ''/a/'' ''GET'' plain_operation,
                  list_item ''/b/'' ''GET'' plain_operation]"
    using ba_listing [OF assms(1)] by blast
  from page defaults example show ?thesis by (intro conjI)
qed

theorem listEndpoints_sorted_page_witness:
  "listEndpoints codeunit_compare (fst (load (Inr (Some ba_spec)) new_loader))
       \<lparr>lep_limit = None, lep_offset = None\<rparr>
     = Inr [list_item ''/a/'' ''GET'' plain_operation,
            list_item ''/b/'' ''GET'' plain_operation]
   \<and> consistent codeunit_compare
   \<and> codeunit_compare ''/a/'' ''/b/'' < 0
   \<and> sorted_wrt (path_then_method codeunit_compare)
        [list_item ''/a/'' ''GET'' plain_operation, list_item ''/b/'' ''GET'' plain_operation]"
proof -
  have lt: "codeunit_compare ''/a/'' ''/b/'' < 0" by code_simp
  have srt: "sorted_wrt (path_then_method codeunit_compare)
        [list_item ''/a/'' ''GET'' plain_operation, list_item ''/b/'' ''GET'' plain_operation]"
    using lt by (simp add: path_then_method_def list_item_def)
  from listEndpoints_sorted_page [OF consistent_codeunit_compare ba_index, of 50 0 None None]
    lt srt consistent_codeunit_compare
  show ?thesis by blast
qed

end
